theory Spec2Isabelle
  imports Complex_Main
begin

section \<open>The coordinate converter of src/main/HokuyoUtils/scip/CoordinateConverter.ts\<close>

text \<open>
  The class \<open>CoordinateConverter\<close> turns distance samples of a range sensor into points
  of the projection surface (\<open>convert\<close>), scales them by the half extents of the surface
  (\<open>normalize\<close>, \<open>inProjectionArea\<close>) and gathers runs of neighbouring points into one
  averaged point (\<open>bunch\<close>, \<open>calcBunchAvarage\<close>).

  Modelling decisions.
  \<^item> A TypeScript \<open>number\<close> is a binary64 floating-point number: a finite value, one
    of the two infinities, or \<open>NaN\<close> (\<open>number\<close> below). A finite value is the real number
    it denotes. An arithmetic operator on finite values is the exact operation followed by
    rounding to the nearest binary64 value, ties to the even significand (\<open>round64\<close>):
    the significand has 53 bits, the unit in the last place is never below \<open>2^-1074\<close>
    (gradual underflow), and a result that rounds to \<open>2^1024\<close> or more in magnitude is an
    infinity (overflow). Division by zero gives an infinity or \<open>NaN\<close>, and a comparison
    with \<open>NaN\<close> is false. The sign of zero is not modelled: the only operation of this
    class that could tell the two zeros apart is the division by a half extent of the
    projection area that is zero, whose result is an infinity of either sign or \<open>NaN\<close>
    and fails the area test in all three cases.
  \<^item> The tuple \<open>XY = [number, number]\<close> is a pair, treated as an immutable value.
  \<^item> An optional field of the options (\<open>normalize?: boolean\<close>) is an \<open>option\<close>;
    \<open>None\<close> is \<open>undefined\<close>. These fields carry the prefix \<open>opt_\<close>, since the class has
    fields and methods of the same names.
  \<^item> The object is a record of its fields. A method that assigns to a field takes the
    object and returns its result together with the updated object; a method that only
    reads fields takes the object and returns its result.
  \<^item> \<open>XY | null\<close> is \<open>XY option\<close>, with \<open>None\<close> for \<open>null\<close>.
\<close>

subsection \<open>Numbers\<close>

text \<open>Rounding to the nearest integer, a tie going to the even one.\<close>

definition round_half_even :: "real \<Rightarrow> int" where
  "round_half_even y =
     (let f = \<lfloor>y\<rfloor>
      in if y - of_int f < 1 / 2 then f
         else if 1 / 2 < y - of_int f then f + 1
         else if even f then f else f + 1)"

text \<open>
  The exponent of the unit in the last place of a number with 53 significant bits:
  \<open>exponent64 x = e\<close> when \<open>2^(e + 52) \<le> |x| < 2^(e + 53)\<close>. It is found by halving or
  doubling the number until it lies in \<open>[1, 2)\<close>.
\<close>

function exponent64 :: "real \<Rightarrow> int" where
  "exponent64 x =
     (if 2 \<le> \<bar>x\<bar> then exponent64 (x / 2) + 1
      else if x \<noteq> 0 \<and> \<bar>x\<bar> < 1 then exponent64 (2 * x) - 1
      else - 52)"
  by pat_completeness auto
termination
proof (relation "measure (\<lambda>x. nat \<bar>\<lfloor>log 2 \<bar>x\<bar>\<rfloor>\<bar>)")
  show "wf (measure (\<lambda>x. nat \<bar>\<lfloor>log 2 \<bar>x\<bar>\<rfloor>\<bar>))"
    by simp
next
  fix x :: real
  assume big: "2 \<le> \<bar>x\<bar>"
  then have "log 2 2 \<le> log 2 \<bar>x\<bar>"
    by (subst log_le_cancel_iff) simp_all
  then have a: "1 \<le> \<lfloor>log 2 \<bar>x\<bar>\<rfloor>"
    by (simp add: le_floor_iff)
  have "x \<noteq> 0"
    using big by auto
  then have "log 2 \<bar>x / 2\<bar> = log 2 \<bar>x\<bar> - 1"
    by (simp add: log_divide)
  then have b: "\<lfloor>log 2 \<bar>x / 2\<bar>\<rfloor> = \<lfloor>log 2 \<bar>x\<bar>\<rfloor> - 1"
    by simp
  show "(x / 2, x) \<in> measure (\<lambda>x. nat \<bar>\<lfloor>log 2 \<bar>x\<bar>\<rfloor>\<bar>)"
    unfolding in_measure b using a by linarith
next
  fix x :: real
  assume small: "x \<noteq> 0 \<and> \<bar>x\<bar> < 1"
  then have "log 2 \<bar>x\<bar> < log 2 1"
    by (subst log_less_cancel_iff) simp_all
  then have a: "\<lfloor>log 2 \<bar>x\<bar>\<rfloor> < 0"
    by (simp add: floor_less_iff)
  have "log 2 \<bar>2 * x\<bar> = log 2 \<bar>x\<bar> + 1"
    using small by (simp add: abs_mult log_mult)
  then have b: "\<lfloor>log 2 \<bar>2 * x\<bar>\<rfloor> = \<lfloor>log 2 \<bar>x\<bar>\<rfloor> + 1"
    by simp
  show "(2 * x, x) \<in> measure (\<lambda>x. nat \<bar>\<lfloor>log 2 \<bar>x\<bar>\<rfloor>\<bar>)"
    unfolding in_measure b using a by linarith
qed

declare exponent64.simps [simp del]

text \<open>
  The nearest binary64 value to a real number, were the exponent unbounded above: the unit
  in the last place is \<open>2^e\<close> with \<open>e\<close> the exponent above, but not below \<open>2^-1074\<close>,
  the spacing of the subnormal numbers.
\<close>

definition ulp_exponent :: "real \<Rightarrow> int" where
  "ulp_exponent x = max (exponent64 x) (- 1074)"

definition nearest64 :: "real \<Rightarrow> real" where
  "nearest64 x =
     (if x = 0 then 0
      else of_int (round_half_even (x / 2 powi ulp_exponent x)) * 2 powi ulp_exponent x)"

text \<open>The finite values of a \<open>number\<close>: the largest is \<open>2^1024 - 2^971\<close>.\<close>

definition is_double :: "real \<Rightarrow> bool" where
  "is_double x \<longleftrightarrow> nearest64 x = x \<and> \<bar>x\<bar> < 2 powi 1024"

text \<open>
  A \<open>number\<close>. \<open>Num x\<close> is meant for an \<open>x\<close> with \<open>is_double x\<close>; the operators
  below keep to such values, and a theorem that needs it of an argument says so
  (\<open>is_number\<close>, or \<open>is_finite\<close> for a finite number, whose real value is \<open>the_real\<close>).
\<close>

datatype number = Num real | PosInf | NegInf | NaN

fun is_number :: "number \<Rightarrow> bool" where
  "is_number (Num x) = is_double x"
| "is_number _ = True"

fun is_finite :: "number \<Rightarrow> bool" where
  "is_finite (Num x) = is_double x"
| "is_finite _ = False"

fun the_real :: "number \<Rightarrow> real" where
  "the_real (Num x) = x"
| "the_real _ = 0"

text \<open>Rounding a real number to a \<open>number\<close>: to the nearest value, or to an infinity.\<close>

definition round64 :: "real \<Rightarrow> number" where
  "round64 x =
     (let r = nearest64 x
      in if 2 powi 1024 \<le> r then PosInf
         else if r \<le> - (2 powi 1024) then NegInf
         else Num r)"

text \<open>The comparisons \<open><=\<close> and \<open><\<close> of the language, \<open>Math.abs\<close> and the unary minus.\<close>

fun num_le :: "number \<Rightarrow> number \<Rightarrow> bool" where
  "num_le (Num a) (Num b) = (a \<le> b)"
| "num_le NaN _ = False"
| "num_le _ NaN = False"
| "num_le NegInf _ = True"
| "num_le _ PosInf = True"
| "num_le _ _ = False"

fun num_lt :: "number \<Rightarrow> number \<Rightarrow> bool" where
  "num_lt (Num a) (Num b) = (a < b)"
| "num_lt NaN _ = False"
| "num_lt _ NaN = False"
| "num_lt PosInf _ = False"
| "num_lt _ NegInf = False"
| "num_lt _ _ = True"

fun num_abs :: "number \<Rightarrow> number" where
  "num_abs (Num a) = Num \<bar>a\<bar>"
| "num_abs NaN = NaN"
| "num_abs _ = PosInf"

fun num_neg :: "number \<Rightarrow> number" where
  "num_neg (Num a) = Num (- a)"
| "num_neg PosInf = NegInf"
| "num_neg NegInf = PosInf"
| "num_neg NaN = NaN"

text \<open>
  The operators \<open>+\<close>, \<open>-\<close>, \<open>*\<close> and \<open>/\<close> of the language. \<open>x - y\<close> is \<open>x + (-y)\<close>.
  \<open>signed_inf\<close> is the infinity of a sign, \<open>is_neg\<close> the sign of a number other than
  \<open>NaN\<close>; a zero counts as positive.
\<close>

definition signed_inf :: "bool \<Rightarrow> number" where
  "signed_inf positive = (if positive then PosInf else NegInf)"

fun is_neg :: "number \<Rightarrow> bool" where
  "is_neg (Num a) = (a < 0)"
| "is_neg NegInf = True"
| "is_neg _ = False"

fun num_add :: "number \<Rightarrow> number \<Rightarrow> number" where
  "num_add (Num a) (Num b) = round64 (a + b)"
| "num_add NaN _ = NaN"
| "num_add _ NaN = NaN"
| "num_add PosInf NegInf = NaN"
| "num_add NegInf PosInf = NaN"
| "num_add PosInf _ = PosInf"
| "num_add _ PosInf = PosInf"
| "num_add NegInf _ = NegInf"
| "num_add _ NegInf = NegInf"

definition num_sub :: "number \<Rightarrow> number \<Rightarrow> number" where
  "num_sub a b = num_add a (num_neg b)"

fun num_mul :: "number \<Rightarrow> number \<Rightarrow> number" where
  "num_mul (Num a) (Num b) = round64 (a * b)"
| "num_mul NaN _ = NaN"
| "num_mul _ NaN = NaN"
| "num_mul (Num a) y = (if a = 0 then NaN else signed_inf ((a < 0) = is_neg y))"
| "num_mul x (Num b) = (if b = 0 then NaN else signed_inf (is_neg x = (b < 0)))"
| "num_mul x y = signed_inf (is_neg x = is_neg y)"

fun num_div :: "number \<Rightarrow> number \<Rightarrow> number" where
  "num_div (Num a) (Num b) =
     (if b = 0 then (if a = 0 then NaN else signed_inf (0 < a)) else round64 (a / b))"
| "num_div NaN _ = NaN"
| "num_div _ NaN = NaN"
| "num_div (Num a) _ = Num 0"
| "num_div x (Num b) = signed_inf (is_neg x = (b < 0))"
| "num_div _ _ = NaN"

text \<open>
  \<open>Math.PI\<close> is the number nearest to \<open>\<pi>\<close>. The language leaves the precision of
  \<open>Math.sin\<close> and \<open>Math.cos\<close> to the implementation; they are modelled as correctly
  rounded, and nothing below depends on their values.
\<close>

definition Math_PI :: number where
  "Math_PI = round64 pi"

fun Math_sin :: "number \<Rightarrow> number" where
  "Math_sin (Num x) = round64 (sin x)"
| "Math_sin _ = NaN"

fun Math_cos :: "number \<Rightarrow> number" where
  "Math_cos (Num x) = round64 (cos x)"
| "Math_cos _ = NaN"

subsection \<open>Data\<close>

type_synonym XY = "number \<times> number"

datatype SensorPlacement = TopLeft | TopRight | BottomLeft | BottomRight

record CoordinateConverterOptions =
  sensorPlacement :: SensorPlacement
  sensorCoordinateFromCenter :: XY
  projectionAreaSize :: XY
  opt_normalize :: "bool option"
  opt_bunch :: "bool option"
  opt_bunchEps :: "number option"
  opt_bunchPrecisionCount :: "number option"

record RotationMatrix =
  a11 :: number
  a12 :: number
  a21 :: number
  a22 :: number

text \<open>
  The second parameter of \<open>bunch\<close>: \<open>'first' | 'last' | 'middle'\<close>. A caller that leaves
  it out passes \<open>'middle'\<close>.
\<close>

datatype DataPlace = First | Last | Middle

record CoordinateConverter =
  options :: CoordinateConverterOptions
  sensorFov :: number
  sensorAxisRotationMatrix :: RotationMatrix
  bunchBuffer :: "XY list"
  prevCoord :: XY
  isNormalize :: bool
  isBunch :: bool
  bunchEps :: number
  bunchPrecisionCount :: number

subsection \<open>Construction\<close>

text \<open>\<open>Number.MAX_SAFE_INTEGER\<close> is \<open>2^53 - 1\<close>.\<close>

definition MAX_SAFE_INTEGER :: number where
  "MAX_SAFE_INTEGER = Num 9007199254740991"

definition calcSensorAxisRotationMatrix :: "SensorPlacement \<Rightarrow> RotationMatrix" where
  "calcSensorAxisRotationMatrix placement =
     (let angle =
        (if placement = BottomLeft then Num 0
         else if placement = BottomRight then num_div Math_PI (Num 2)
         else if placement = TopRight then Math_PI
         else if placement = TopLeft then num_mul Math_PI (num_div (Num 3) (Num 2))
         else Num 0);
        s = Math_sin angle;
        c = Math_cos angle
      in \<lparr>a11 = c, a12 = num_neg s, a21 = s, a22 = c\<rparr>)"

text \<open>The literal \<open>0.05\<close> denotes the number nearest to it.\<close>

definition new_CoordinateConverter :: "CoordinateConverterOptions \<Rightarrow> CoordinateConverter" where
  "new_CoordinateConverter opts =
     \<lparr>options = opts,
      sensorFov = num_mul (Num 90) (num_div Math_PI (Num 180)),
      sensorAxisRotationMatrix = calcSensorAxisRotationMatrix (sensorPlacement opts),
      bunchBuffer = [],
      prevCoord = (MAX_SAFE_INTEGER, MAX_SAFE_INTEGER),
      isNormalize = (case opt_normalize opts of None \<Rightarrow> True | Some b \<Rightarrow> b),
      isBunch = (case opt_bunch opts of None \<Rightarrow> True | Some b \<Rightarrow> b),
      bunchEps = (case opt_bunchEps opts of None \<Rightarrow> round64 0.05 | Some e \<Rightarrow> e),
      bunchPrecisionCount = (case opt_bunchPrecisionCount opts of None \<Rightarrow> Num 3 | Some n \<Rightarrow> n)\<rparr>"

subsection \<open>The methods that only read\<close>

definition convert :: "CoordinateConverter \<Rightarrow> number \<Rightarrow> number \<Rightarrow> number \<Rightarrow> XY" where
  "convert this distance dataIndex datasLength =
     (let meter = num_div distance (Num 1000);
          angle = num_mul (num_div dataIndex (num_sub datasLength (Num 1))) (sensorFov this);
          localCoord = (num_mul meter (Math_cos angle), num_mul meter (Math_sin angle));
          mat = sensorAxisRotationMatrix this;
          fixedAxisLocalCoord =
            (num_add (num_mul (a11 mat) (fst localCoord)) (num_mul (a12 mat) (snd localCoord)),
             num_add (num_mul (a21 mat) (fst localCoord)) (num_mul (a22 mat) (snd localCoord)))
      in (num_add (fst (sensorCoordinateFromCenter (options this))) (fst fixedAxisLocalCoord),
          num_add (snd (sensorCoordinateFromCenter (options this))) (snd fixedAxisLocalCoord)))"

text \<open>\<open>normalize\<close> of the source; the name is taken by a constant of the library.\<close>

definition normalizeXY :: "CoordinateConverter \<Rightarrow> XY \<Rightarrow> XY" where
  "normalizeXY this coord =
     (num_div (fst coord) (num_div (fst (projectionAreaSize (options this))) (Num 2)),
      num_div (snd coord) (num_div (snd (projectionAreaSize (options this))) (Num 2)))"

definition inProjectionArea :: "XY \<Rightarrow> bool" where
  "inProjectionArea normCoord \<longleftrightarrow>
     num_le (Num (- 1)) (fst normCoord) \<and> num_le (fst normCoord) (Num 1) \<and>
     num_le (Num (- 1)) (snd normCoord) \<and> num_le (snd normCoord) (Num 1)"

subsection \<open>The methods that write the buffer\<close>

text \<open>
  \<open>calcBunchAvarage\<close>: the loop adds every buffered point to \<open>result\<close>, starting from
  \<open>[0, 0]\<close>; the buffer is emptied whatever the result is. The length of an array is an
  integer below \<open>2^32\<close>, which is a \<open>number\<close> as it is.
\<close>

definition calcBunchAvarage :: "CoordinateConverter \<Rightarrow> XY option \<times> CoordinateConverter" where
  "calcBunchAvarage this =
     (let result =
        (if num_le (bunchPrecisionCount this) (Num (real (length (bunchBuffer this)))) then
           (let acc = foldl (\<lambda>r coord. (num_add (fst r) (fst coord), num_add (snd r) (snd coord)))
                        (Num 0, Num 0) (bunchBuffer this)
            in Some (num_div (fst acc) (Num (real (length (bunchBuffer this)))),
                     num_div (snd acc) (Num (real (length (bunchBuffer this))))))
         else None)
      in (result, this\<lparr>bunchBuffer := []\<rparr>))"

definition bunch :: "CoordinateConverter \<Rightarrow> XY \<Rightarrow> DataPlace \<Rightarrow> XY option \<times> CoordinateConverter" where
  "bunch this coord dataPlace =
     (if \<not> inProjectionArea (normalizeXY this coord) then
        (let this1 = this\<lparr>prevCoord := coord\<rparr>
         in if 0 < length (bunchBuffer this1) then calcBunchAvarage this1
            else (None, this1))
      else if dataPlace = First then
        (None, this\<lparr>bunchBuffer := [coord], prevCoord := coord\<rparr>)
      else if dataPlace = Middle then
        (let (result, this1) =
           (if 0 < length (bunchBuffer this) then
              (let dx = num_abs (num_sub (fst (prevCoord this)) (fst coord));
                   dy = num_abs (num_sub (snd (prevCoord this)) (snd coord))
               in if num_lt (bunchEps this) dx \<or> num_lt (bunchEps this) dy
                  then calcBunchAvarage this
                  else (None, this))
            else (None, this))
         in (result, this1\<lparr>bunchBuffer := bunchBuffer this1 @ [coord], prevCoord := coord\<rparr>))
      else if dataPlace = Last \<and> 0 < length (bunchBuffer this) then calcBunchAvarage this
      else (None, this))"

text \<open>
  A caller feeds the samples of a sweep to \<open>bunch\<close> one after the other, on the same
  object. \<open>bunchAll\<close> is that loop: it returns the results in call order and the object
  after the last call.
\<close>

fun bunchAll :: "CoordinateConverter \<Rightarrow> (XY \<times> DataPlace) list \<Rightarrow> XY option list \<times> CoordinateConverter" where
  "bunchAll this [] = ([], this)"
| "bunchAll this ((coord, dataPlace) # calls) =
     (let (r, this1) = bunch this coord dataPlace;
          (rs, this2) = bunchAll this1 calls
      in (r # rs, this2))"

subsection \<open>The words of the specification\<close>

text \<open>
  The arithmetic mean of a list of points, axis by axis, as a program computes it on
  \<open>number\<close>s: the values are added from left to right, starting from 0, and the sum is
  divided by their number.
\<close>

definition arithmetic_mean :: "XY list \<Rightarrow> XY" where
  "arithmetic_mean ps =
     (num_div (foldl num_add (Num 0) (map fst ps)) (Num (real (length ps))),
      num_div (foldl num_add (Num 0) (map snd ps)) (Num (real (length ps))))"

text \<open>
  The mean of real numbers in exact arithmetic, and a bound on how far the rounding of the
  additions and of the division can move the computed mean from it when no sum overflows:
  a relative error of \<open>2^-53\<close> for each operation, and half the spacing of the subnormal
  numbers for a quotient that underflows.
\<close>

definition exact_mean :: "real list \<Rightarrow> real" where
  "exact_mean xs = sum_list xs / real (length xs)"

definition mean_tolerance :: "real list \<Rightarrow> real" where
  "mean_tolerance xs =
     ((1 + 2 powi (- 53)) ^ (length xs + 1) - 1) * sum_list (map abs xs) / real (length xs) +
     2 powi (- 1075)"

text \<open>The flush of a buffer under the precision rule, as the specification words it.\<close>

definition precision_rule :: "number \<Rightarrow> XY list \<Rightarrow> XY option" where
  "precision_rule n ps =
     (if num_le n (Num (real (length ps))) then Some (arithmetic_mean ps) else None)"

text \<open>
  Example objects for the closed statements below: a freshly constructed converter over a
  projection area of 2 m by 2 m with every optional field left out, the same object with
  three points already buffered, a converter whose precision count is 5, and a converter
  over a projection area 0.2 m wide.
\<close>

definition example_options :: CoordinateConverterOptions where
  "example_options =
     \<lparr>sensorPlacement = BottomLeft, sensorCoordinateFromCenter = (Num 0, Num 0),
      projectionAreaSize = (Num 2, Num 2), opt_normalize = None, opt_bunch = None,
      opt_bunchEps = None, opt_bunchPrecisionCount = None\<rparr>"

definition example_converter :: CoordinateConverter where
  "example_converter = new_CoordinateConverter example_options"

definition loaded_converter :: CoordinateConverter where
  "loaded_converter =
     example_converter\<lparr>bunchBuffer := [(Num 0.5, Num 0.5), (Num 0.53125, Num 0.5),
                                        (Num 0.5625, Num 0.5)],
                        prevCoord := (Num 0.5625, Num 0.5)\<rparr>"


definition narrow_options :: CoordinateConverterOptions where
  "narrow_options = example_options\<lparr>projectionAreaSize := (round64 0.2, Num 2)\<rparr>"

definition narrow_converter :: CoordinateConverter where
  "narrow_converter = new_CoordinateConverter narrow_options"

text \<open>
  \<open>Number.MIN_VALUE\<close>, the smallest positive \<open>number\<close>, and \<open>Number.MAX_VALUE\<close>, the
  largest finite one.
\<close>

definition MIN_VALUE :: real where
  "MIN_VALUE = 2 powi (- 1074)"

definition MAX_VALUE :: real where
  "MAX_VALUE = 2 powi 1024 - 2 powi 971"

text \<open>
  More example objects: the converter over the area 0.2 m wide after three calls with the
  point \<open>[0.1, 0]\<close>; a converter whose area is \<open>Number.MIN_VALUE\<close> wide, one whose area
  is three times as wide, and one whose area is \<open>Number.MAX_VALUE\<close> wide.
\<close>

definition edge_converter :: CoordinateConverter where
  "edge_converter =
     narrow_converter\<lparr>bunchBuffer := [(round64 0.1, Num 0), (round64 0.1, Num 0),
                                       (round64 0.1, Num 0)],
                       prevCoord := (round64 0.1, Num 0)\<rparr>"

definition smallest_options :: CoordinateConverterOptions where
  "smallest_options = example_options\<lparr>projectionAreaSize := (Num MIN_VALUE, Num 2)\<rparr>"

definition smallest_converter :: CoordinateConverter where
  "smallest_converter = new_CoordinateConverter smallest_options"

definition subnormal_options :: CoordinateConverterOptions where
  "subnormal_options = example_options\<lparr>projectionAreaSize := (Num (3 * MIN_VALUE), Num 2)\<rparr>"

definition subnormal_converter :: CoordinateConverter where
  "subnormal_converter = new_CoordinateConverter subnormal_options"

definition huge_options :: CoordinateConverterOptions where
  "huge_options = example_options\<lparr>projectionAreaSize := (Num MAX_VALUE, Num 2)\<rparr>"

definition huge_converter :: CoordinateConverter where
  "huge_converter = new_CoordinateConverter huge_options"

section \<open>Properties\<close>

subsection \<open>Powers of two\<close>

lemma two_powi_pos [simp]: "0 < (2::real) powi e"
  by simp

lemma two_powi_add: "(2::real) powi (a + b) = 2 powi a * 2 powi b"
  by (simp add: power_int_add)

lemma two_powi_diff: "(2::real) powi (a - b) = 2 powi a / 2 powi b"
  by (simp add: power_int_diff)

lemma two_powi_mono: "a \<le> b \<Longrightarrow> (2::real) powi a \<le> 2 powi b"
  by (simp add: power_int_increasing)

lemma two_powi_less_imp: "(2::real) powi a < 2 powi b \<Longrightarrow> a < b"
  using two_powi_mono [of b a] by (cases "a < b") auto

lemma two_powi_le_one: "(2::real) powi k \<le> 1 \<Longrightarrow> k \<le> 0"
  using power_int_le_imp_le_exp [of "2::real" k 0] by simp

lemma two_powi_nonpos: "e \<le> 0 \<Longrightarrow> 1 / (2::real) powi e = of_int (2 ^ nat (- e))"
  by (simp add: power_int_def power_divide)

lemma scale_mono: "m \<le> n \<Longrightarrow> of_int m * 2 powi e \<le> (of_int n * 2 powi e :: real)"
  by (simp add: mult_right_mono)

subsection \<open>The exponent\<close>

lemma exponent64_unit: "1 \<le> \<bar>x\<bar> \<Longrightarrow> \<bar>x\<bar> < 2 \<Longrightarrow> exponent64 x = - 52"
  by (subst exponent64.simps) auto

lemma exponent64_up: "2 \<le> \<bar>x\<bar> \<Longrightarrow> exponent64 x = exponent64 (x / 2) + 1"
  by (subst exponent64.simps) simp

lemma exponent64_down: "x \<noteq> 0 \<Longrightarrow> \<bar>x\<bar> < 1 \<Longrightarrow> exponent64 x = exponent64 (2 * x) - 1"
  by (subst exponent64.simps) simp

lemma exponent64_bounds:
  "x \<noteq> 0 \<Longrightarrow> 2 powi (exponent64 x + 52) \<le> \<bar>x\<bar> \<and> \<bar>x\<bar> < 2 powi (exponent64 x + 53)"
proof (induction x rule: exponent64.induct)
  case (1 x)
  consider "2 \<le> \<bar>x\<bar>" | "\<bar>x\<bar> < 1" | "1 \<le> \<bar>x\<bar>" "\<bar>x\<bar> < 2"
    by linarith
  then show ?case
  proof cases
    case 1
    with "1.prems" have ih: "2 powi (exponent64 (x / 2) + 52) \<le> \<bar>x / 2\<bar> \<and>
        \<bar>x / 2\<bar> < 2 powi (exponent64 (x / 2) + 53)"
      by (intro "1.IH"(1)) simp_all
    have e: "exponent64 x + 52 = (exponent64 (x / 2) + 52) + 1"
      "exponent64 x + 53 = (exponent64 (x / 2) + 53) + 1"
      by (simp_all add: exponent64_up [OF 1])
    show ?thesis
      unfolding e two_powi_add [of _ 1] using ih by simp
  next
    case 2
    with "1.prems" have ih: "2 powi (exponent64 (2 * x) + 52) \<le> \<bar>2 * x\<bar> \<and>
        \<bar>2 * x\<bar> < 2 powi (exponent64 (2 * x) + 53)"
      by (intro "1.IH"(2)) simp_all
    have e: "exponent64 (2 * x) + 52 = (exponent64 x + 52) + 1"
      "exponent64 (2 * x) + 53 = (exponent64 x + 53) + 1"
      by (simp_all add: exponent64_down [OF "1.prems" 2])
    show ?thesis
      using ih unfolding e two_powi_add [of _ 1] by (simp add: abs_mult)
  next
    case 3
    then show ?thesis by (simp add: exponent64_unit)
  qed
qed

lemma exponent64_eqI:
  assumes "2 powi (e + 52) \<le> \<bar>x\<bar>" and "\<bar>x\<bar> < 2 powi (e + 53)"
  shows "exponent64 x = e"
proof -
  have "0 < \<bar>x\<bar>"
    using assms(1) two_powi_pos [of "e + 52"] by linarith
  then have "x \<noteq> 0" by simp
  then have b: "2 powi (exponent64 x + 52) \<le> \<bar>x\<bar>" "\<bar>x\<bar> < 2 powi (exponent64 x + 53)"
    using exponent64_bounds by simp_all
  have "(2::real) powi (e + 52) < 2 powi (exponent64 x + 53)"
    using assms(1) b(2) by linarith
  then have "e + 52 < exponent64 x + 53" by (rule two_powi_less_imp)
  moreover have "(2::real) powi (exponent64 x + 52) < 2 powi (e + 53)"
    using assms(2) b(1) by linarith
  then have "exponent64 x + 52 < e + 53" by (rule two_powi_less_imp)
  ultimately show ?thesis by simp
qed

lemma exponent64_uminus: "exponent64 (- x) = exponent64 x"
proof (cases "x = 0")
  case True
  then show ?thesis by simp
next
  case False
  show ?thesis
    by (rule exponent64_eqI) (use exponent64_bounds [OF False] in simp_all)
qed

lemma exponent64_mono:
  assumes "0 < d" and "d \<le> x"
  shows "exponent64 d \<le> exponent64 x"
proof -
  have "2 powi (exponent64 d + 52) \<le> \<bar>d\<bar>" "\<bar>x\<bar> < 2 powi (exponent64 x + 53)"
    using exponent64_bounds [of d] exponent64_bounds [of x] assms by simp_all
  with assms have "(2::real) powi (exponent64 d + 52) < 2 powi (exponent64 x + 53)"
    by linarith
  then have "exponent64 d + 52 < exponent64 x + 53" by (rule two_powi_less_imp)
  then show ?thesis by simp
qed

lemma exponent64_le:
  assumes "x \<noteq> 0" and "\<bar>x\<bar> < 2 powi (e + 53)"
  shows "exponent64 x \<le> e"
proof -
  have "2 powi (exponent64 x + 52) \<le> \<bar>x\<bar>"
    using exponent64_bounds [OF assms(1)] by simp
  with assms(2) have "(2::real) powi (exponent64 x + 52) < 2 powi (e + 53)" by linarith
  then have "exponent64 x + 52 < e + 53" by (rule two_powi_less_imp)
  then show ?thesis by simp
qed

lemma exponent64_half:
  assumes "x \<noteq> 0"
  shows "exponent64 (x / 2) = exponent64 x - 1"
proof (rule exponent64_eqI)
  have a: "2 powi (exponent64 x + 52) \<le> \<bar>x\<bar>" and b: "\<bar>x\<bar> < 2 powi (exponent64 x + 53)"
    using exponent64_bounds [OF assms] by simp_all
  have e: "exponent64 x + 52 = (exponent64 x - 1 + 52) + 1"
    "exponent64 x + 53 = (exponent64 x - 1 + 53) + 1"
    by simp_all
  show "2 powi (exponent64 x - 1 + 52) \<le> \<bar>x / 2\<bar>"
    using a unfolding e(1) two_powi_add [of _ 1] by simp
  show "\<bar>x / 2\<bar> < 2 powi (exponent64 x - 1 + 53)"
    using b unfolding e(2) two_powi_add [of _ 1] by simp
qed

subsection \<open>The exponent of the unit in the last place\<close>

lemma ulp_exponent_ge: "- 1074 \<le> ulp_exponent x"
  by (simp add: ulp_exponent_def)

lemma exponent64_le_ulp: "exponent64 x \<le> ulp_exponent x"
  by (simp add: ulp_exponent_def)

lemma ulp_exponent_uminus: "ulp_exponent (- x) = ulp_exponent x"
  by (simp add: ulp_exponent_def exponent64_uminus)

lemma ulp_exponent_mono: "0 < d \<Longrightarrow> d \<le> x \<Longrightarrow> ulp_exponent d \<le> ulp_exponent x"
  using exponent64_mono [of d x] by (simp add: ulp_exponent_def)

lemma ulp_exponent_le:
  assumes "x \<noteq> 0" and "\<bar>x\<bar> < 2 powi (e + 53)" and "- 1074 \<le> e"
  shows "ulp_exponent x \<le> e"
  using exponent64_le [OF assms(1,2)] assms(3) by (simp add: ulp_exponent_def)

lemma ulp_exponent_bound:
  assumes "x \<noteq> 0"
  shows "\<bar>x\<bar> < 2 powi (ulp_exponent x + 53)"
proof -
  have "\<bar>x\<bar> < 2 powi (exponent64 x + 53)"
    using exponent64_bounds [OF assms] by simp
  also have "\<dots> \<le> 2 powi (ulp_exponent x + 53)"
    by (intro two_powi_mono) (simp add: ulp_exponent_def)
  finally show ?thesis .
qed

lemma ulp_exponent_normal:
  assumes "2 powi (- 1022) \<le> \<bar>x\<bar>"
  shows "ulp_exponent x = exponent64 x"
proof -
  have "0 < \<bar>x\<bar>"
    using assms two_powi_pos [of "- 1022"] by linarith
  then have "x \<noteq> 0" by simp
  then have "\<bar>x\<bar> < 2 powi (exponent64 x + 53)"
    using exponent64_bounds by simp
  with assms have "(2::real) powi (- 1022) < 2 powi (exponent64 x + 53)"
    by linarith
  then have "- 1022 < exponent64 x + 53" by (rule two_powi_less_imp)
  then show ?thesis by (simp add: ulp_exponent_def)
qed

lemma ulp_exponent_cases:
  obtains "ulp_exponent x = exponent64 x" | "ulp_exponent x = - 1074" and "exponent64 x < - 1074"
  unfolding ulp_exponent_def by (cases "- 1074 \<le> exponent64 x") (simp_all add: max_def)

subsection \<open>Rounding to an integer\<close>

lemma round_half_even_cases:
  obtains "round_half_even y = \<lfloor>y\<rfloor>" and "y - of_int \<lfloor>y\<rfloor> \<le> 1 / 2"
  | "round_half_even y = \<lfloor>y\<rfloor> + 1" and "1 / 2 \<le> y - of_int \<lfloor>y\<rfloor>"
proof -
  consider "y - of_int \<lfloor>y\<rfloor> < 1 / 2" | "y - of_int \<lfloor>y\<rfloor> = 1 / 2" | "1 / 2 < y - of_int \<lfloor>y\<rfloor>"
    by linarith
  then show thesis
  proof cases
    case 1
    then have "round_half_even y = \<lfloor>y\<rfloor>"
      unfolding round_half_even_def Let_def by (simp only: if_True)
    with 1 that(1) show thesis by simp
  next
    case 2
    then have "round_half_even y = (if even \<lfloor>y\<rfloor> then \<lfloor>y\<rfloor> else \<lfloor>y\<rfloor> + 1)"
      unfolding round_half_even_def Let_def by (simp only: less_irrefl if_False)
    with 2 that show thesis by (cases "even \<lfloor>y\<rfloor>") simp_all
  next
    case 3
    then have "\<not> y - of_int \<lfloor>y\<rfloor> < 1 / 2" by simp
    with 3 have "round_half_even y = \<lfloor>y\<rfloor> + 1"
      unfolding round_half_even_def Let_def by (simp only: if_True if_False)
    with 3 that(2) show thesis by simp
  qed
qed

lemma round_half_even_of_int [simp]: "round_half_even (of_int n) = n"
  by (simp add: round_half_even_def)

lemma round_half_even_le:
  assumes "y \<le> of_int n"
  shows "round_half_even y \<le> n"
proof (cases y rule: round_half_even_cases)
  case 1
  have "of_int \<lfloor>y\<rfloor> \<le> y" by simp
  with assms have "of_int \<lfloor>y\<rfloor> \<le> (of_int n :: real)" by linarith
  with 1 show ?thesis by simp
next
  case 2
  have "of_int \<lfloor>y\<rfloor> + 1 / 2 \<le> y" using 2 by linarith
  with assms have "of_int \<lfloor>y\<rfloor> < (of_int n :: real)" by linarith
  then have "\<lfloor>y\<rfloor> < n" by simp
  with 2 show ?thesis by simp
qed

lemma round_half_even_ge:
  assumes "of_int n \<le> y"
  shows "n \<le> round_half_even y"
proof -
  have "n \<le> \<lfloor>y\<rfloor>" using assms by (simp add: le_floor_iff)
  then show ?thesis
    by (cases y rule: round_half_even_cases) simp_all
qed

lemma round_half_even_gt:
  assumes "of_int n + 1 / 2 < y"
  shows "n + 1 \<le> round_half_even y"
proof (cases y rule: round_half_even_cases)
  case 1
  with assms have "of_int n < (of_int \<lfloor>y\<rfloor> :: real)" by linarith
  then have "n < \<lfloor>y\<rfloor>" by simp
  with 1 show ?thesis by simp
next
  case 2
  have "n \<le> \<lfloor>y\<rfloor>" using assms by (simp add: le_floor_iff)
  with 2 show ?thesis by simp
qed

lemma round_half_even_uminus: "round_half_even (- y) = - round_half_even y"
proof (cases "y = of_int \<lfloor>y\<rfloor>")
  case True
  then obtain n where "y = of_int n" ..
  then have "- y = of_int (- n)" by simp
  then show ?thesis using \<open>y = of_int n\<close> by (simp only: round_half_even_of_int)
next
  case False
  have fl: "of_int \<lfloor>y\<rfloor> < y" "y < of_int \<lfloor>y\<rfloor> + 1"
  proof -
    show "of_int \<lfloor>y\<rfloor> < y"
      using False by (metis less_le of_int_floor_le)
    show "y < of_int \<lfloor>y\<rfloor> + 1"
      by linarith
  qed
  have fm: "\<lfloor>- y\<rfloor> = - \<lfloor>y\<rfloor> - 1"
  proof (rule floor_unique)
    show "of_int (- \<lfloor>y\<rfloor> - 1) \<le> - y"
      by simp linarith
    show "- y < of_int (- \<lfloor>y\<rfloor> - 1) + 1"
      using fl(1) by simp
  qed
  consider "y - of_int \<lfloor>y\<rfloor> < 1 / 2" | "y - of_int \<lfloor>y\<rfloor> = 1 / 2" | "1 / 2 < y - of_int \<lfloor>y\<rfloor>"
    by linarith
  then show ?thesis
  proof cases
    case 1
    then have "round_half_even y = \<lfloor>y\<rfloor>"
      by (simp add: round_half_even_def)
    moreover have "1 / 2 < - y - of_int \<lfloor>- y\<rfloor>" using 1 fm by simp
    then have "round_half_even (- y) = \<lfloor>- y\<rfloor> + 1"
      by (simp add: round_half_even_def)
    ultimately show ?thesis using fm by simp
  next
    case 2
    then have a: "round_half_even y = (if even \<lfloor>y\<rfloor> then \<lfloor>y\<rfloor> else \<lfloor>y\<rfloor> + 1)"
      by (simp add: round_half_even_def)
    have "- y - of_int \<lfloor>- y\<rfloor> = 1 / 2" using 2 fm by simp
    then have b: "round_half_even (- y) = (if even \<lfloor>- y\<rfloor> then \<lfloor>- y\<rfloor> else \<lfloor>- y\<rfloor> + 1)"
      by (simp add: round_half_even_def)
    show ?thesis unfolding a b fm by (cases "even \<lfloor>y\<rfloor>") simp_all
  next
    case 3
    then have "round_half_even y = \<lfloor>y\<rfloor> + 1"
      by (simp add: round_half_even_def)
    moreover have "- y - of_int \<lfloor>- y\<rfloor> < 1 / 2" using 3 fm by simp
    then have "round_half_even (- y) = \<lfloor>- y\<rfloor>"
      by (simp add: round_half_even_def)
    ultimately show ?thesis using fm by simp
  qed
qed

lemma round_half_even_error: "\<bar>of_int (round_half_even y) - y\<bar> \<le> 1 / 2"
proof (cases y rule: round_half_even_cases)
  case 1
  have "of_int \<lfloor>y\<rfloor> \<le> y" by simp
  with 1 show ?thesis by simp
next
  case 2
  have "y < of_int \<lfloor>y\<rfloor> + 1" by linarith
  with 2 show ?thesis by simp
qed

subsection \<open>Rounding to the nearest value\<close>

lemma nearest64_uminus: "nearest64 (- x) = - nearest64 x"
  by (simp add: nearest64_def ulp_exponent_uminus round_half_even_uminus)

lemma nearest64_zero [simp]: "nearest64 0 = 0"
  by (simp add: nearest64_def)

lemma nearest64_scaled:
  "x \<noteq> 0 \<Longrightarrow>
   nearest64 x = of_int (round_half_even (x / 2 powi ulp_exponent x)) * 2 powi ulp_exponent x"
  by (simp add: nearest64_def)

lemma nearest64_nonpos: "x \<le> 0 \<Longrightarrow> nearest64 x \<le> 0"
proof (cases "x = 0")
  case True
  then show ?thesis by simp
next
  case False
  assume "x \<le> 0"
  then have "x / 2 powi ulp_exponent x \<le> of_int 0"
    by (simp add: divide_nonpos_pos)
  then have "round_half_even (x / 2 powi ulp_exponent x) \<le> 0"
    by (rule round_half_even_le)
  then have "of_int (round_half_even (x / 2 powi ulp_exponent x)) * 2 powi ulp_exponent x
      \<le> (0::real)"
    by (simp add: mult_le_0_iff)
  with False show ?thesis by (simp add: nearest64_def)
qed

lemma nearest64_nonneg: "0 \<le> x \<Longrightarrow> 0 \<le> nearest64 x"
  using nearest64_nonpos [of "- x"] by (simp add: nearest64_uminus)

text \<open>
  The values of the grid are the \<open>x\<close> that rounding leaves as they are,
  \<open>nearest64 x = x\<close>. Such a value is an integer multiple of its unit in the last place,
  and of \<open>2^-1074\<close>.
\<close>

lemma grid_imp:
  assumes "nearest64 x = x"
  shows "\<exists>m::int. x = of_int m * 2 powi ulp_exponent x"
proof (cases "x = 0")
  case True
  then have "x = of_int 0 * 2 powi ulp_exponent x" by simp
  then show ?thesis ..
next
  case False
  with assms have "x = of_int (round_half_even (x / 2 powi ulp_exponent x)) * 2 powi ulp_exponent x"
    by (simp add: nearest64_def)
  then show ?thesis ..
qed

lemma gridI:
  assumes "x = of_int m * 2 powi ulp_exponent x"
  shows "nearest64 x = x"
proof (cases "x = 0")
  case True
  then show ?thesis by simp
next
  case False
  have "x / 2 powi ulp_exponent x = of_int m"
    by (subst assms) simp
  then have "round_half_even (x / 2 powi ulp_exponent x) = m"
    by (simp only: round_half_even_of_int)
  with False assms show ?thesis by (simp add: nearest64_def)
qed

lemma grid_uminus: "nearest64 (- x) = - x \<longleftrightarrow> nearest64 x = x"
  by (simp add: nearest64_uminus)

lemma grid_coarser:
  assumes "nearest64 x = x" and "e \<le> ulp_exponent x"
  shows "\<exists>k::int. x = of_int k * 2 powi e"
proof -
  obtain m :: int where m: "x = of_int m * 2 powi ulp_exponent x"
    using grid_imp [OF assms(1)] ..
  define k where "k = nat (ulp_exponent x - e)"
  have "ulp_exponent x = e + int k"
    using assms(2) by (simp add: k_def)
  then have "(2::real) powi ulp_exponent x = 2 powi e * 2 ^ k"
    by (simp add: two_powi_add)
  then have "x = of_int (m * 2 ^ k) * 2 powi e"
    using m by simp
  then show ?thesis ..
qed

lemma grid_subnormal_multiple:
  assumes "nearest64 x = x"
  shows "\<exists>k::int. x = of_int k * 2 powi (- 1074)"
  using assms ulp_exponent_ge by (rule grid_coarser)

lemma grid_scaled:
  assumes "\<bar>m\<bar> < 2 ^ 53" and "- 1074 \<le> e"
  shows "nearest64 (of_int m * 2 powi e) = of_int m * 2 powi e"
proof (cases "m = 0")
  case True
  then show ?thesis by simp
next
  case False
  define x :: real where "x = of_int m * 2 powi e"
  have nz: "x \<noteq> 0" using False by (simp add: x_def)
  have "\<bar>x\<bar> = of_int \<bar>m\<bar> * 2 powi e"
    by (simp add: x_def abs_mult)
  also have "\<dots> < of_int (2 ^ 53) * 2 powi e"
    using assms(1) by (simp only: mult_less_cancel_right_pos two_powi_pos of_int_less_iff)
  also have "\<dots> = 2 powi (e + 53)"
    by (simp add: two_powi_add)
  finally have le: "ulp_exponent x \<le> e"
    using assms(2) by (intro ulp_exponent_le [OF nz])
  define k where "k = nat (e - ulp_exponent x)"
  have "e = ulp_exponent x + int k"
    using le by (simp add: k_def)
  then have "(2::real) powi e = 2 powi ulp_exponent x * 2 ^ k"
    by (metis power_int_of_nat two_powi_add)
  then have "of_int m * (2::real) powi e = of_int (m * 2 ^ k) * 2 powi ulp_exponent x"
    by simp
  then have "x = of_int (m * 2 ^ k) * 2 powi ulp_exponent x"
    by (simp only: x_def [symmetric])
  then have "nearest64 x = x" by (rule gridI)
  then show ?thesis by (simp only: x_def)
qed

lemma grid_scaled_le:
  assumes "\<bar>m\<bar> \<le> 2 ^ 53" and "- 1074 \<le> e"
  shows "nearest64 (of_int m * 2 powi e) = of_int m * 2 powi e"
proof -
  consider "\<bar>m\<bar> < 2 ^ 53" | "m = 2 ^ 53" | "m = - (2 ^ 53)"
    using assms(1) by linarith
  then show ?thesis
  proof cases
    case 1
    then show ?thesis using assms(2) by (rule grid_scaled)
  next
    case 2
    then have "of_int m * (2::real) powi e = of_int 1 * 2 powi (e + 53)"
      by (simp add: two_powi_add)
    then show ?thesis
      using grid_scaled [of 1 "e + 53"] assms(2) by simp
  next
    case 3
    then have "of_int m * (2::real) powi e = of_int (- 1) * 2 powi (e + 53)"
      by (simp add: two_powi_add)
    then show ?thesis
      using grid_scaled [of "- 1" "e + 53"] assms(2) by simp
  qed
qed

lemma grid_ratio:
  assumes "\<bar>m\<bar> < 2 ^ 53" and "n \<le> 1074"
  shows "nearest64 (of_int m / 2 ^ n) = of_int m / 2 ^ n"
proof -
  have "of_int m / 2 ^ n = of_int m * (2::real) powi (- int n)"
    by (simp add: power_int_minus field_simps)
  with grid_scaled [OF assms(1), of "- int n"] assms(2) show ?thesis
    by simp
qed

lemma grid_int:
  assumes "\<bar>m\<bar> < 2 ^ 53"
  shows "nearest64 (of_int m) = of_int m"
  using grid_ratio [OF assms, of 0] by simp

lemma grid_nat:
  assumes "n < 2 ^ 53"
  shows "nearest64 (real n) = real n"
proof -
  have "\<bar>int n\<bar> < 2 ^ 53"
    using assms by simp
  from grid_int [OF this] show ?thesis by simp
qed

lemma grid_one [simp]: "nearest64 1 = 1"
  using grid_int [of 1] by simp

lemma grid_two [simp]: "nearest64 2 = 2"
  using grid_int [of 2] by simp

lemma nearest64_idem: "nearest64 (nearest64 x) = nearest64 x"
proof (cases "x = 0")
  case True
  then show ?thesis by simp
next
  case False
  define e where "e = ulp_exponent x"
  define m where "m = round_half_even (x / 2 powi e)"
  have r: "nearest64 x = of_int m * 2 powi e"
    using False by (simp add: nearest64_def e_def m_def)
  have e: "- 1074 \<le> e"
    by (simp add: e_def ulp_exponent_ge)
  have "\<bar>x\<bar> < 2 powi (e + 53)"
    using ulp_exponent_bound [OF False] by (simp add: e_def)
  then have "\<bar>x\<bar> < 2 powi 53 * 2 powi e"
    by (simp add: two_powi_add mult.commute)
  then have "\<bar>x\<bar> / 2 powi e < 2 powi 53"
    by (simp add: pos_divide_less_eq)
  then have b: "\<bar>x / 2 powi e\<bar> < 2 ^ 53"
    by (simp add: abs_divide)
  have up: "x / 2 powi e \<le> of_int (2 ^ 53)" and low: "of_int (- (2 ^ 53)) \<le> x / 2 powi e"
    using b by (simp_all only: of_int_minus of_int_power of_int_numeral)
  have "m \<le> 2 ^ 53"
    unfolding m_def using up by (rule round_half_even_le)
  moreover have "- (2 ^ 53) \<le> m"
    unfolding m_def using low by (rule round_half_even_ge)
  ultimately have "\<bar>m\<bar> \<le> 2 ^ 53"
    by linarith
  then show ?thesis
    unfolding r using e by (rule grid_scaled_le)
qed

text \<open>Rounding does not cross a value of the grid.\<close>

lemma nearest64_le_grid_pos:
  assumes y: "0 < y" "y \<le> d" and d: "nearest64 d = d"
  shows "nearest64 y \<le> d"
proof -
  let ?e = "ulp_exponent y"
  have "?e \<le> ulp_exponent d"
    using y by (rule ulp_exponent_mono)
  with d obtain k :: int where k: "d = of_int k * 2 powi ?e"
    using grid_coarser by blast
  have "y / 2 powi ?e \<le> d / 2 powi ?e"
    using y(2) by (intro divide_right_mono) simp_all
  also have "d / 2 powi ?e = of_int k"
    by (subst k) simp
  finally have "round_half_even (y / 2 powi ?e) \<le> k"
    by (rule round_half_even_le)
  then have "of_int (round_half_even (y / 2 powi ?e)) * 2 powi ?e \<le> (of_int k * 2 powi ?e :: real)"
    by (rule scale_mono)
  with k y(1) show ?thesis by (simp add: nearest64_def)
qed


lemma nearest64_lower:
  assumes "0 < x" and "ulp_exponent x = exponent64 x"
  shows "2 powi (ulp_exponent x + 52) \<le> nearest64 x"
proof -
  let ?e = "ulp_exponent x"
  have x: "x \<noteq> 0" "\<bar>x\<bar> = x" using assms(1) by simp_all
  have "2 powi (?e + 52) \<le> x"
    using exponent64_bounds [OF x(1)] x(2) assms(2) by simp
  then have "2 powi 52 * 2 powi ?e \<le> x"
    by (simp add: two_powi_add mult.commute)
  then have "of_int (2 ^ 52) \<le> x / 2 powi ?e"
    by (simp add: pos_le_divide_eq)
  then have "2 ^ 52 \<le> round_half_even (x / 2 powi ?e)"
    by (rule round_half_even_ge)
  then have "of_int (2 ^ 52) * 2 powi ?e \<le>
             (of_int (round_half_even (x / 2 powi ?e)) * 2 powi ?e :: real)"
    by (rule scale_mono)
  moreover have "of_int (2 ^ 52) * 2 powi ?e = (2::real) powi (?e + 52)"
    by (simp add: two_powi_add)
  moreover have "nearest64 x = of_int (round_half_even (x / 2 powi ?e)) * 2 powi ?e"
    using x(1) by (simp add: nearest64_def)
  ultimately show ?thesis by linarith
qed

lemma nearest64_ge_grid_pos:
  assumes d: "0 < d" "d \<le> y" "nearest64 d = d"
  shows "d \<le> nearest64 y"
proof -
  let ?ed = "ulp_exponent d" and ?ey = "ulp_exponent y"
  have y: "0 < y" using d by linarith
  have le: "?ed \<le> ?ey"
    using d(1,2) by (rule ulp_exponent_mono)
  show ?thesis
  proof (cases "?ed = ?ey")
    case True
    obtain m :: int where m: "d = of_int m * 2 powi ?ey"
      using grid_imp [OF d(3)] True by auto
    have "d / 2 powi ?ey \<le> y / 2 powi ?ey"
      using d(2) by (intro divide_right_mono) simp_all
    moreover have "d / 2 powi ?ey = of_int m"
      by (subst m) simp
    ultimately have "of_int m \<le> y / 2 powi ?ey" by simp
    then have "m \<le> round_half_even (y / 2 powi ?ey)"
      by (rule round_half_even_ge)
    then have "of_int m * 2 powi ?ey \<le>
        (of_int (round_half_even (y / 2 powi ?ey)) * 2 powi ?ey :: real)"
      by (rule scale_mono)
    with m y show ?thesis by (simp add: nearest64_def)
  next
    case False
    with le have lt: "?ed < ?ey" by simp
    have "- 1074 \<le> ?ed" by (rule ulp_exponent_ge)
    with lt have "?ey \<noteq> - 1074" by simp
    then have n: "?ey = exponent64 y"
      by (cases y rule: ulp_exponent_cases) simp_all
    have "d < 2 powi (?ed + 53)"
      using ulp_exponent_bound [of d] d(1) by simp
    also have "\<dots> \<le> 2 powi (?ey + 52)"
      using lt by (intro two_powi_mono) simp
    also have "\<dots> \<le> nearest64 y"
      using y n by (rule nearest64_lower)
    finally show ?thesis by simp
  qed
qed

lemma nearest64_le_grid:
  assumes "y \<le> d" and "nearest64 d = d"
  shows "nearest64 y \<le> d"
proof (cases "0 < y")
  case True
  then show ?thesis using assms by (rule nearest64_le_grid_pos)
next
  case False
  then have r: "nearest64 y \<le> 0"
    by (intro nearest64_nonpos) simp
  show ?thesis
  proof (cases "0 \<le> d")
    case True
    with r show ?thesis by simp
  next
    case False
    then have "0 < - d" "- d \<le> - y" "nearest64 (- d) = - d"
      using assms by (simp_all add: nearest64_uminus)
    then have "- d \<le> nearest64 (- y)"
      by (rule nearest64_ge_grid_pos)
    then show ?thesis by (simp add: nearest64_uminus)
  qed
qed

lemma nearest64_ge_grid:
  assumes "d \<le> y" and "nearest64 d = d"
  shows "d \<le> nearest64 y"
proof -
  have "- y \<le> - d" "nearest64 (- d) = - d"
    using assms by (simp_all add: nearest64_uminus)
  then have "nearest64 (- y) \<le> - d"
    by (rule nearest64_le_grid)
  then show ?thesis by (simp add: nearest64_uminus)
qed

lemma nearest64_abs_le_grid:
  assumes "\<bar>y\<bar> \<le> d" and "nearest64 d = d"
  shows "\<bar>nearest64 y\<bar> \<le> d"
proof -
  have "y \<le> d" using assms(1) by simp
  then have "nearest64 y \<le> d"
    using assms(2) by (rule nearest64_le_grid)
  moreover have "- d \<le> y" "nearest64 (- d) = - d"
    using assms by (simp_all add: nearest64_uminus)
  then have "- d \<le> nearest64 y"
    by (rule nearest64_ge_grid)
  ultimately show ?thesis by simp
qed

lemma nearest64_gt_one:
  assumes "1 + 2 powi (- 53) < x"
  shows "1 < nearest64 x"
proof -
  let ?e = "exponent64 x"
  have pos: "0 < x"
    using assms two_powi_pos [of "- 53"] by linarith
  then have x: "x \<noteq> 0" "\<bar>x\<bar> = x" by simp_all
  show ?thesis
  proof (cases "x < 2")
    case True
    have "1 \<le> \<bar>x\<bar>" "\<bar>x\<bar> < 2"
      using assms True two_powi_pos [of "- 53"] by simp_all
    then have "?e = - 52" by (rule exponent64_unit)
    then have e: "ulp_exponent x = - 52"
      by (simp add: ulp_exponent_def)
    have "of_int (2 ^ 52) + 1 / 2 < x / 2 powi (- 52)"
      using assms by (simp add: field_simps)
    then have "2 ^ 52 + 1 \<le> round_half_even (x / 2 powi (- 52))"
      by (rule round_half_even_gt)
    then have "of_int (2 ^ 52 + 1) * 2 powi (- 52) \<le>
               of_int (round_half_even (x / 2 powi (- 52))) * (2::real) powi (- 52)"
      by (rule scale_mono)
    moreover have "1 < of_int (2 ^ 52 + 1) * (2::real) powi (- 52)"
      by simp
    ultimately have "1 < of_int (round_half_even (x / 2 powi (- 52))) * (2::real) powi (- 52)"
      by linarith
    then show ?thesis using x(1) e by (simp add: nearest64_def)
  next
    case False
    then have "2 \<le> x" by simp
    then have "2 \<le> nearest64 x"
      by (rule nearest64_ge_grid) simp
    then show ?thesis by simp
  qed
qed

text \<open>
  Two values of the grid that differ are at least one unit in the last place of the
  smaller apart, so their quotient is further from 1 than half a unit in the last place
  of 1.
\<close>

lemma grid_gap:
  assumes x: "nearest64 x = x" and d: "nearest64 d = d" and pos: "0 < d" and less: "d < x"
  shows "d + 2 powi ulp_exponent d \<le> x"
proof -
  let ?ed = "ulp_exponent d"
  obtain md :: int where md: "d = of_int md * 2 powi ?ed"
    using grid_imp [OF d] ..
  have "?ed \<le> ulp_exponent x"
    using pos less by (intro ulp_exponent_mono) simp_all
  with x obtain k :: int where x': "x = of_int k * 2 powi ?ed"
    using grid_coarser by blast
  have "of_int md * 2 powi ?ed < of_int k * (2::real) powi ?ed"
    using less md x' by simp
  then have "(of_int md :: real) < of_int k"
    by (simp only: mult_less_cancel_right_pos two_powi_pos)
  then have "md < k" by (simp only: of_int_less_iff)
  then have "md + 1 \<le> k" by simp
  then have "of_int (md + 1) * 2 powi ?ed \<le> (of_int k * 2 powi ?ed :: real)"
    by (rule scale_mono)
  moreover have "of_int (md + 1) * 2 powi ?ed = d + (2::real) powi ?ed"
    using md by (simp add: algebra_simps)
  ultimately show ?thesis using x' by linarith
qed

lemma grid_quotient_gap:
  assumes x: "nearest64 x = x" and d: "nearest64 d = d" and pos: "0 < d" and less: "d < x"
  shows "1 + 2 powi (- 53) < x / d"
proof -
  let ?ed = "ulp_exponent d"
  have "d < 2 powi (?ed + 53)"
    using ulp_exponent_bound [of d] pos by simp
  then have "d < 2 powi ?ed * 2 powi 53"
    by (simp only: two_powi_add)
  then have "d * 2 powi (- 53) < 2 powi ?ed * 2 powi 53 * (2::real) powi (- 53)"
    by (simp only: mult_less_cancel_right_pos two_powi_pos)
  moreover have "2 powi ?ed * 2 powi 53 * (2::real) powi (- 53) = 2 powi ?ed"
    by simp
  ultimately have "d * 2 powi (- 53) < 2 powi ?ed" by linarith
  with grid_gap [OF x d pos less] have "d + d * 2 powi (- 53) < x" by linarith
  then have "(1 + 2 powi (- 53)) * d < x" by (simp add: algebra_simps)
  then show ?thesis using pos by (simp add: pos_less_divide_eq)
qed

lemma nearest64_quotient_le_one:
  assumes "nearest64 x = x" and "nearest64 d = d" and "0 < d"
  shows "nearest64 (x / d) \<le> 1 \<longleftrightarrow> x \<le> d"
proof
  assume "x \<le> d"
  then have "x / d \<le> 1" using assms(3) by simp
  then show "nearest64 (x / d) \<le> 1" by (rule nearest64_le_grid) simp
next
  assume le: "nearest64 (x / d) \<le> 1"
  show "x \<le> d"
  proof (rule ccontr)
    assume "\<not> x \<le> d"
    then have "d < x" by simp
    then have "1 + 2 powi (- 53) < x / d"
      by (rule grid_quotient_gap [OF assms])
    then have "1 < nearest64 (x / d)" by (rule nearest64_gt_one)
    with le show False by simp
  qed
qed

lemma nearest64_quotient_ge_minus_one:
  assumes "nearest64 x = x" and "nearest64 d = d" and "0 < d"
  shows "- 1 \<le> nearest64 (x / d) \<longleftrightarrow> - d \<le> x"
proof -
  have "nearest64 (- x) = - x" using assms(1) by (simp add: nearest64_uminus)
  from nearest64_quotient_le_one [OF this assms(2,3)]
  have "- 1 \<le> nearest64 (x / d) \<longleftrightarrow> - x \<le> d"
    by (simp add: nearest64_uminus)
  then show ?thesis by linarith
qed

text \<open>Halving a value of the grid is exact when the half is not subnormal.\<close>

lemma grid_half:
  assumes "nearest64 x = x" and "2 powi (- 1021) \<le> \<bar>x\<bar>"
  shows "nearest64 (x / 2) = x / 2"
proof -
  have "0 < \<bar>x\<bar>"
    using assms(2) two_powi_pos [of "- 1021"] by linarith
  then have nz: "x \<noteq> 0" by simp
  have "(2::real) powi (- 1022) \<le> 2 powi (- 1021)"
    by (intro two_powi_mono) simp
  with assms(2) have n: "ulp_exponent x = exponent64 x"
    by (intro ulp_exponent_normal) linarith
  have "2 powi (- 1022) \<le> \<bar>x / 2\<bar>"
  proof -
    have "(2::real) powi (- 1021) = 2 powi (- 1022) * 2"
      using two_powi_add [of "- 1022" 1] by simp
    with assms(2) show ?thesis by simp
  qed
  then have "ulp_exponent (x / 2) = exponent64 (x / 2)"
    by (rule ulp_exponent_normal)
  then have h: "ulp_exponent (x / 2) = ulp_exponent x - 1"
    by (simp add: exponent64_half [OF nz] n)
  obtain m :: int where m: "x = of_int m * 2 powi ulp_exponent x"
    using grid_imp [OF assms(1)] ..
  have "2 powi ulp_exponent x = (2::real) powi (ulp_exponent x - 1) * 2"
    by (simp add: two_powi_diff)
  then have a: "x / 2 = of_int m * 2 powi (ulp_exponent x - 1)"
    using m by simp
  have "x / 2 = of_int m * 2 powi ulp_exponent (x / 2)"
    unfolding h by (rule a)
  then show ?thesis by (rule gridI)
qed

subsection \<open>The error of a rounding\<close>

lemma nearest64_error_ulp:
  assumes "x \<noteq> 0"
  shows "\<bar>nearest64 x - x\<bar> \<le> 1 / 2 * 2 powi ulp_exponent x"
proof -
  define e where "e = ulp_exponent x"
  define y where "y = x / 2 powi e"
  have x: "y * 2 powi e = x" by (simp add: y_def)
  have r: "nearest64 x = of_int (round_half_even y) * 2 powi e"
    using assms by (simp add: nearest64_def e_def y_def)
  have "(of_int (round_half_even y) - y) * 2 powi e =
      of_int (round_half_even y) * 2 powi e - y * 2 powi e"
    by (rule left_diff_distrib)
  then have "nearest64 x - x = (of_int (round_half_even y) - y) * 2 powi e"
    by (simp only: r x)
  then have "\<bar>nearest64 x - x\<bar> = \<bar>of_int (round_half_even y) - y\<bar> * 2 powi e"
    by (simp add: abs_mult)
  also have "\<dots> \<le> 1 / 2 * 2 powi e"
    by (intro mult_right_mono round_half_even_error) simp
  finally show ?thesis by (simp only: e_def)
qed

lemma nearest64_error_normal:
  assumes "ulp_exponent x = exponent64 x"
  shows "\<bar>nearest64 x - x\<bar> \<le> 2 powi (- 53) * \<bar>x\<bar>"
proof (cases "x = 0")
  case True
  then show ?thesis by simp
next
  case False
  define e where "e = exponent64 x"
  have "\<bar>nearest64 x - x\<bar> \<le> 1 / 2 * 2 powi e"
    using nearest64_error_ulp [OF False] assms by (simp add: e_def)
  also have "1 / 2 * 2 powi e = 2 powi (- 53) * (2::real) powi (e + 52)"
    by (simp add: two_powi_add)
  also have "\<dots> \<le> 2 powi (- 53) * \<bar>x\<bar>"
    using exponent64_bounds [OF False] by (intro mult_left_mono) (simp_all add: e_def)
  finally show ?thesis .
qed

lemma nearest64_error: "\<bar>nearest64 x - x\<bar> \<le> 2 powi (- 53) * \<bar>x\<bar> + 2 powi (- 1075)"
proof (cases x rule: ulp_exponent_cases)
  case 1
  then have "\<bar>nearest64 x - x\<bar> \<le> 2 powi (- 53) * \<bar>x\<bar>"
    by (rule nearest64_error_normal)
  moreover have "0 < (2::real) powi (- 1075)" by (rule two_powi_pos)
  ultimately show ?thesis by linarith
next
  case 2
  show ?thesis
  proof (cases "x = 0")
    case True
    then show ?thesis by simp
  next
    case False
    have "\<bar>nearest64 x - x\<bar> \<le> 1 / 2 * 2 powi (- 1074)"
      using nearest64_error_ulp [OF False] 2(1) by simp
    also have "1 / 2 * 2 powi (- 1074) = (2::real) powi (- 1075)"
      using two_powi_add [of "- 1075" 1] by simp
    finally have "\<bar>nearest64 x - x\<bar> \<le> 2 powi (- 1075)" .
    moreover have "0 \<le> 2 powi (- 53) * \<bar>x\<bar>" by simp
    ultimately show ?thesis by linarith
  qed
qed

text \<open>The sum of two values of the grid that underflows is exact.\<close>

lemma nearest64_add_error:
  assumes "nearest64 a = a" and "nearest64 b = b"
  shows "\<bar>nearest64 (a + b) - (a + b)\<bar> \<le> 2 powi (- 53) * \<bar>a + b\<bar>"
proof (cases "a + b" rule: ulp_exponent_cases)
  case 1
  then show ?thesis by (rule nearest64_error_normal)
next
  case 2
  obtain ka :: int where ka: "a = of_int ka * 2 powi (- 1074)"
    using grid_subnormal_multiple [OF assms(1)] ..
  obtain kb :: int where kb: "b = of_int kb * 2 powi (- 1074)"
    using grid_subnormal_multiple [OF assms(2)] ..
  have s: "a + b = of_int (ka + kb) * 2 powi (- 1074)"
    by (subst ka, subst kb) (simp add: algebra_simps)
  have "a + b = of_int (ka + kb) * 2 powi ulp_exponent (a + b)"
    unfolding 2(1) by (rule s)
  then have "nearest64 (a + b) = a + b"
    by (rule gridI)
  then show ?thesis by simp
qed

subsection \<open>Rounding to a number\<close>

text \<open>
  The rounding of a numeral is found by rewriting: the exponent by halving or doubling,
  then the integer nearest to the scaled value, then the test for overflow.
\<close>

lemmas nearest64_eval =
  nearest64_def ulp_exponent_def round_half_even_def exponent64_unit exponent64_up exponent64_down

lemmas round64_eval = round64_def Let_def nearest64_eval

lemmas num_eval = num_sub_def signed_inf_def round64_eval

lemma round64_Num: "\<bar>nearest64 x\<bar> < 2 powi 1024 \<Longrightarrow> round64 x = Num (nearest64 x)"
  unfolding round64_def Let_def by (simp add: abs_less_iff not_le)

lemma round64_double: "is_double x \<Longrightarrow> round64 x = Num x"
  using round64_Num [of x] by (simp add: is_double_def)

lemma round64_cases:
  obtains "round64 x = PosInf" and "2 powi 1024 \<le> nearest64 x"
  | "round64 x = NegInf" and "nearest64 x \<le> - (2 powi 1024)"
  | "round64 x = Num (nearest64 x)" and "\<bar>nearest64 x\<bar> < 2 powi 1024"
proof -
  have p: "0 < (2::real) powi 1024" by (rule two_powi_pos)
  consider "2 powi 1024 \<le> nearest64 x" | "nearest64 x \<le> - (2 powi 1024)"
    | "\<bar>nearest64 x\<bar> < 2 powi 1024"
    by linarith
  then show thesis
  proof cases
    case 1
    then have "round64 x = PosInf"
      unfolding round64_def Let_def by (simp only: if_True)
    with 1 that(1) show thesis by simp
  next
    case 2
    with p have "\<not> 2 powi 1024 \<le> nearest64 x" by linarith
    with 2 have "round64 x = NegInf"
      unfolding round64_def Let_def by (simp only: if_True if_False)
    with 2 that(2) show thesis by simp
  next
    case 3
    then have "round64 x = Num (nearest64 x)" by (rule round64_Num)
    with 3 that(3) show thesis by simp
  qed
qed

lemma is_double_nearest64: "\<bar>nearest64 x\<bar> < 2 powi 1024 \<Longrightarrow> is_double (nearest64 x)"
  by (simp add: is_double_def nearest64_idem)

lemma is_number_round64: "is_number (round64 x)"
  by (cases x rule: round64_cases) (simp_all add: is_double_nearest64)

lemma num_le_round64_upper:
  assumes "\<bar>c\<bar> < 2 powi 1024"
  shows "num_le (round64 y) (Num c) \<longleftrightarrow> nearest64 y \<le> c"
proof (cases y rule: round64_cases)
  case 1
  with assms show ?thesis by simp
next
  case 2
  with assms show ?thesis by simp
next
  case 3
  then show ?thesis by simp
qed

lemma num_le_round64_lower:
  assumes "\<bar>c\<bar> < 2 powi 1024"
  shows "num_le (Num c) (round64 y) \<longleftrightarrow> c \<le> nearest64 y"
proof (cases y rule: round64_cases)
  case 1
  with assms show ?thesis by simp
next
  case 2
  with assms show ?thesis by simp
next
  case 3
  then show ?thesis by simp
qed

lemma is_double_zero [simp]: "is_double 0"
  by (simp add: is_double_def)

lemma is_double_uminus [simp]: "is_double (- x) \<longleftrightarrow> is_double x"
  by (simp add: is_double_def nearest64_uminus)

lemma is_double_half:
  assumes "is_double x" and "2 powi (- 1021) \<le> \<bar>x\<bar>"
  shows "is_double (x / 2)"
proof -
  have "nearest64 (x / 2) = x / 2"
    using assms by (intro grid_half) (simp_all add: is_double_def)
  moreover have "\<bar>x / 2\<bar> \<le> \<bar>x\<bar>" by simp
  ultimately show ?thesis
    using assms(1) by (simp add: is_double_def)
qed

lemma is_double_nat:
  assumes "n < 2 ^ 53"
  shows "is_double (real n)"
proof -
  have "real n < 2 ^ 53"
    using assms by (metis of_nat_less_iff of_nat_numeral of_nat_power)
  also have "(2::real) ^ 53 \<le> 2 powi 1024"
    using two_powi_mono [of 53 1024] by simp
  finally show ?thesis
    using grid_nat [OF assms] by (simp add: is_double_def)
qed

subsection \<open>The quotient of two numbers against 1\<close>

lemma num_div_two:
  assumes "is_double w" and "2 powi (- 1021) \<le> w"
  shows "num_div (Num w) (Num 2) = Num (w / 2)"
proof -
  have "2 powi (- 1021) \<le> \<bar>w\<bar>"
    using assms(2) by simp
  then have "is_double (w / 2)"
    by (rule is_double_half [OF assms(1)])
  then show ?thesis
    by (simp add: round64_double)
qed

lemma normalized_in_unit_interval:
  assumes p: "is_number p" and w: "is_double w" "2 powi (- 1021) \<le> w"
  shows "num_le (Num (- 1)) (num_div p (num_div (Num w) (Num 2))) \<and>
         num_le (num_div p (num_div (Num w) (Num 2))) (Num 1) \<longleftrightarrow>
         num_le (num_abs p) (Num (w / 2))"
proof -
  have pos: "0 < w"
    using w(2) two_powi_pos [of "- 1021"] by linarith
  have "2 powi (- 1021) \<le> \<bar>w\<bar>"
    using w(2) by simp
  then have d: "nearest64 (w / 2) = w / 2"
    using w(1) by (intro grid_half) (simp_all add: is_double_def)
  have d0: "0 < w / 2" "w / 2 \<noteq> 0" "\<not> w / 2 < 0"
    using pos by simp_all
  have one: "\<bar>1::real\<bar> < 2 powi 1024" "\<bar>- 1::real\<bar> < 2 powi 1024"
    using two_powi_mono [of 1 1024] by simp_all
  show ?thesis
  proof (cases p)
    case (Num x)
    then have x: "nearest64 x = x"
      using p by (simp add: is_double_def)
    have q: "num_div p (num_div (Num w) (Num 2)) = round64 (x / (w / 2))"
      unfolding num_div_two [OF w] Num using d0(2) by (simp only: num_div.simps if_False)
    have a: "nearest64 (x / (w / 2)) \<le> 1 \<longleftrightarrow> x \<le> w / 2"
      by (rule nearest64_quotient_le_one [OF x d d0(1)])
    have b: "- 1 \<le> nearest64 (x / (w / 2)) \<longleftrightarrow> - (w / 2) \<le> x"
      by (rule nearest64_quotient_ge_minus_one [OF x d d0(1)])
    have "num_le (num_abs p) (Num (w / 2)) \<longleftrightarrow> \<bar>x\<bar> \<le> w / 2"
      by (simp add: Num)
    then show ?thesis
      unfolding q num_le_round64_upper [OF one(1)] num_le_round64_lower [OF one(2)] a b
      by (auto simp add: abs_le_iff)
  next
    case PosInf
    then show ?thesis
      unfolding num_div_two [OF w] using d0(3) by (simp add: signed_inf_def)
  next
    case NegInf
    then show ?thesis
      unfolding num_div_two [OF w] using d0(3) by (simp add: signed_inf_def)
  next
    case NaN
    then show ?thesis
      unfolding num_div_two [OF w] by simp
  qed
qed

subsection \<open>The accuracy of a computed mean\<close>

text \<open>
  The sums of the loop on real numbers, with no overflow: values bounded by a power of two
  \<open>B\<close> have partial sums bounded by multiples of \<open>B\<close>, which are values of the grid.
\<close>

lemma grid_multiple:
  assumes "j < 2 ^ 53" and "- 1074 \<le> E"
  shows "nearest64 (real j * 2 powi E) = real j * 2 powi E"
proof -
  have "\<bar>int j\<bar> < 2 ^ 53"
    using assms(1) by simp
  from grid_scaled [OF this assms(2)] show ?thesis by simp
qed

lemma foldl_nearest64_bound:
  assumes "\<forall>x \<in> set xs. \<bar>x\<bar> \<le> 2 powi E"
    and "\<bar>a\<bar> \<le> real k * 2 powi E"
    and "k + length xs < 2 ^ 53" and "- 1074 \<le> E"
  shows "\<bar>foldl (\<lambda>a x. nearest64 (a + x)) a xs\<bar> \<le> real (k + length xs) * 2 powi E"
  using assms
proof (induction xs arbitrary: a k)
  case Nil
  then show ?case by simp
next
  case (Cons x xs)
  have x: "\<bar>x\<bar> \<le> 2 powi E" and xs: "\<forall>x \<in> set xs. \<bar>x\<bar> \<le> 2 powi E"
    using Cons.prems(1) by simp_all
  have "\<bar>a + x\<bar> \<le> real k * 2 powi E + 2 powi E"
    using Cons.prems(2) x by linarith
  then have s: "\<bar>a + x\<bar> \<le> real (Suc k) * 2 powi E"
    by (simp add: algebra_simps)
  have "Suc k < 2 ^ 53"
    using Cons.prems(3) by simp
  then have "nearest64 (real (Suc k) * 2 powi E) = real (Suc k) * 2 powi E"
    using Cons.prems(4) by (rule grid_multiple)
  with s have a': "\<bar>nearest64 (a + x)\<bar> \<le> real (Suc k) * 2 powi E"
    by (rule nearest64_abs_le_grid)
  have "\<bar>foldl (\<lambda>a x. nearest64 (a + x)) (nearest64 (a + x)) xs\<bar>
      \<le> real (Suc k + length xs) * 2 powi E"
    using xs a' Cons.prems(3,4) by (intro Cons.IH) simp_all
  then show ?case by simp
qed

lemma foldl_num_add_Num:
  assumes "\<forall>x \<in> set xs. \<bar>x\<bar> \<le> 2 powi E"
    and "\<bar>a\<bar> \<le> real k * 2 powi E"
    and "k + length xs < 2 ^ 53" and "- 1074 \<le> E"
    and "real (k + length xs) * 2 powi E < 2 powi 1024"
  shows "foldl num_add (Num a) (map Num xs) = Num (foldl (\<lambda>a x. nearest64 (a + x)) a xs)"
  using assms
proof (induction xs arbitrary: a k)
  case Nil
  then show ?case by simp
next
  case (Cons x xs)
  have x: "\<bar>x\<bar> \<le> 2 powi E" and xs: "\<forall>x \<in> set xs. \<bar>x\<bar> \<le> 2 powi E"
    using Cons.prems(1) by simp_all
  have "\<bar>a + x\<bar> \<le> real k * 2 powi E + 2 powi E"
    using Cons.prems(2) x by linarith
  then have s: "\<bar>a + x\<bar> \<le> real (Suc k) * 2 powi E"
    by (simp add: algebra_simps)
  have "Suc k < 2 ^ 53"
    using Cons.prems(3) by simp
  then have "nearest64 (real (Suc k) * 2 powi E) = real (Suc k) * 2 powi E"
    using Cons.prems(4) by (rule grid_multiple)
  with s have a': "\<bar>nearest64 (a + x)\<bar> \<le> real (Suc k) * 2 powi E"
    by (rule nearest64_abs_le_grid)
  have "real (Suc k) * 2 powi E \<le> real (k + length (x # xs)) * 2 powi E"
    by (intro mult_right_mono) simp_all
  with a' Cons.prems(5) have "\<bar>nearest64 (a + x)\<bar> < 2 powi 1024"
    by linarith
  then have step: "num_add (Num a) (Num x) = Num (nearest64 (a + x))"
    by (simp add: round64_Num)
  have "foldl num_add (Num (nearest64 (a + x))) (map Num xs) =
      Num (foldl (\<lambda>a x. nearest64 (a + x)) (nearest64 (a + x)) xs)"
    using xs a' Cons.prems(3,4,5) by (intro Cons.IH [of _ "Suc k"]) simp_all
  then show ?case
    by (simp only: list.map foldl_Cons step)
qed

lemma foldl_nearest64_grid:
  assumes "nearest64 a = a"
  shows "nearest64 (foldl (\<lambda>a x. nearest64 (a + x)) a xs) = foldl (\<lambda>a x. nearest64 (a + x)) a xs"
  using assms by (induction xs arbitrary: a) (simp_all add: nearest64_idem)

lemma foldl_nearest64_error:
  assumes "nearest64 a = a" and "\<forall>x \<in> set xs. nearest64 x = x"
  shows "\<bar>foldl (\<lambda>a x. nearest64 (a + x)) a xs - (a + sum_list xs)\<bar> \<le>
           ((1 + 2 powi (- 53)) ^ length xs - 1) * (\<bar>a\<bar> + sum_list (map abs xs))"
  using assms
proof (induction xs arbitrary: a)
  case Nil
  show ?case by simp
next
  case (Cons x xs)
  define u :: real where "u = 2 powi (- 53)"
  define n where "n = length xs"
  define S where "S = sum_list (map abs xs)"
  define a' where "a' = nearest64 (a + x)"
  define F where "F = foldl (\<lambda>a x. nearest64 (a + x)) a' xs"
  have gx: "nearest64 x = x" and gxs: "\<forall>x \<in> set xs. nearest64 x = x"
    using Cons.prems(2) by simp_all
  have ga': "nearest64 a' = a'"
    by (simp add: a'_def nearest64_idem)
  have u: "0 < u" by (simp add: u_def)
  have S: "0 \<le> S"
    unfolding S_def by (rule sum_list_nonneg) auto
  have p: "1 \<le> (1 + u) ^ n" using u by (simp add: one_le_power)
  have e0: "\<bar>a' - (a + x)\<bar> \<le> u * \<bar>a + x\<bar>"
    unfolding a'_def u_def using Cons.prems(1) gx by (rule nearest64_add_error)
  have e1: "\<bar>a' - (a + x)\<bar> \<le> u * (\<bar>a\<bar> + \<bar>x\<bar>)"
  proof -
    have "u * \<bar>a + x\<bar> \<le> u * (\<bar>a\<bar> + \<bar>x\<bar>)"
      using u by (intro mult_left_mono) simp_all
    with e0 show ?thesis by linarith
  qed
  have e2: "\<bar>a'\<bar> \<le> (1 + u) * (\<bar>a\<bar> + \<bar>x\<bar>)"
  proof -
    have "\<bar>a'\<bar> \<le> \<bar>a' - (a + x)\<bar> + \<bar>a + x\<bar>"
      by linarith
    also have "\<dots> \<le> u * (\<bar>a\<bar> + \<bar>x\<bar>) + (\<bar>a\<bar> + \<bar>x\<bar>)"
      using e1 by linarith
    also have "\<dots> = (1 + u) * (\<bar>a\<bar> + \<bar>x\<bar>)"
      by (simp add: algebra_simps)
    finally show ?thesis .
  qed
  have ih: "\<bar>F - (a' + sum_list xs)\<bar> \<le> ((1 + u) ^ n - 1) * (\<bar>a'\<bar> + S)"
    unfolding F_def u_def n_def S_def using ga' gxs by (rule Cons.IH)
  have "((1 + u) ^ n - 1) * (\<bar>a'\<bar> + S) \<le> ((1 + u) ^ n - 1) * ((1 + u) * (\<bar>a\<bar> + \<bar>x\<bar>) + S)"
    using p e2 by (intro mult_left_mono) simp_all
  with ih have ih': "\<bar>F - (a' + sum_list xs)\<bar> \<le>
      ((1 + u) ^ n - 1) * ((1 + u) * (\<bar>a\<bar> + \<bar>x\<bar>) + S)"
    by linarith
  have "\<bar>F - (a + (x + sum_list xs))\<bar> \<le> \<bar>F - (a' + sum_list xs)\<bar> + \<bar>a' - (a + x)\<bar>"
    by linarith
  also have "\<dots> \<le> ((1 + u) ^ n - 1) * ((1 + u) * (\<bar>a\<bar> + \<bar>x\<bar>) + S) + u * (\<bar>a\<bar> + \<bar>x\<bar>)"
    using ih' e1 by linarith
  also have "\<dots> = ((1 + u) ^ Suc n - 1) * (\<bar>a\<bar> + \<bar>x\<bar>) + ((1 + u) ^ n - 1) * S"
    by (simp add: algebra_simps)
  also have "\<dots> \<le> ((1 + u) ^ Suc n - 1) * (\<bar>a\<bar> + \<bar>x\<bar>) + ((1 + u) ^ Suc n - 1) * S"
  proof -
    have "(1 + u) ^ n \<le> (1 + u) ^ Suc n"
      using u by (intro power_increasing) simp_all
    then have "((1 + u) ^ n - 1) * S \<le> ((1 + u) ^ Suc n - 1) * S"
      using S by (intro mult_right_mono) simp_all
    then show ?thesis by linarith
  qed
  also have "\<dots> = ((1 + u) ^ Suc n - 1) * (\<bar>a\<bar> + (\<bar>x\<bar> + S))"
    by (simp add: algebra_simps)
  finally show ?case
    by (simp add: F_def a'_def u_def n_def S_def)
qed

lemma foldl_nearest64_abs:
  assumes "\<forall>x \<in> set xs. nearest64 x = x"
  shows "\<bar>foldl (\<lambda>a x. nearest64 (a + x)) 0 xs\<bar> \<le>
           (1 + 2 powi (- 53)) ^ length xs * sum_list (map abs xs)"
proof -
  define u :: real where "u = 2 powi (- 53)"
  define n where "n = length xs"
  define S where "S = sum_list (map abs xs)"
  define F where "F = foldl (\<lambda>a x. nearest64 (a + x)) 0 xs"
  have "\<bar>F - (0 + sum_list xs)\<bar> \<le> ((1 + u) ^ n - 1) * (\<bar>0\<bar> + S)"
    unfolding F_def u_def n_def S_def using assms by (intro foldl_nearest64_error) simp_all
  then have e1: "\<bar>F - sum_list xs\<bar> \<le> ((1 + u) ^ n - 1) * S"
    by simp
  have "\<bar>sum_list xs\<bar> \<le> S"
    unfolding S_def by (rule sum_list_abs)
  with e1 have "\<bar>F\<bar> \<le> ((1 + u) ^ n - 1) * S + S"
    by linarith
  then have "\<bar>F\<bar> \<le> (1 + u) ^ n * S"
    by (simp add: algebra_simps)
  then show ?thesis
    by (simp only: F_def u_def n_def S_def)
qed

lemma computed_mean_error:
  assumes "xs \<noteq> []" and "\<forall>x \<in> set xs. nearest64 x = x"
  shows "\<bar>nearest64 (foldl (\<lambda>a x. nearest64 (a + x)) 0 xs / real (length xs)) - exact_mean xs\<bar>
           \<le> mean_tolerance xs"
proof -
  define u :: real where "u = 2 powi (- 53)"
  define h :: real where "h = 2 powi (- 1075)"
  define n where "n = length xs"
  define S where "S = sum_list (map abs xs)"
  define F where "F = foldl (\<lambda>a x. nearest64 (a + x)) 0 xs"
  have u: "0 < u" by (simp add: u_def)
  have n: "0 < real n" using assms(1) by (simp add: n_def)
  have S: "0 \<le> S"
    unfolding S_def by (rule sum_list_nonneg) auto
  have "\<bar>F - (0 + sum_list xs)\<bar> \<le> ((1 + u) ^ n - 1) * (\<bar>0\<bar> + S)"
    unfolding F_def u_def n_def S_def using assms(2) by (intro foldl_nearest64_error) simp_all
  then have e1: "\<bar>F - sum_list xs\<bar> \<le> ((1 + u) ^ n - 1) * S"
    by simp
  have F: "\<bar>F\<bar> \<le> (1 + u) ^ n * S"
    unfolding F_def u_def n_def S_def using assms(2) by (rule foldl_nearest64_abs)
  have "\<bar>nearest64 (F / real n) - F / real n\<bar> \<le> u * \<bar>F / real n\<bar> + h"
    unfolding u_def h_def by (rule nearest64_error)
  also have "u * \<bar>F / real n\<bar> = u * \<bar>F\<bar> / real n"
    using n by (simp add: abs_divide)
  also have "\<dots> \<le> u * ((1 + u) ^ n * S) / real n"
    using F u n by (intro divide_right_mono mult_left_mono) simp_all
  finally have e2: "\<bar>nearest64 (F / real n) - F / real n\<bar> \<le> u * ((1 + u) ^ n * S) / real n + h"
    by simp
  have "\<bar>F / real n - sum_list xs / real n\<bar> = \<bar>F - sum_list xs\<bar> / real n"
    using n by (simp add: diff_divide_distrib [symmetric] abs_divide)
  also have "\<dots> \<le> ((1 + u) ^ n - 1) * S / real n"
    using e1 n by (intro divide_right_mono) simp_all
  finally have e3: "\<bar>F / real n - sum_list xs / real n\<bar> \<le> ((1 + u) ^ n - 1) * S / real n" .
  have "\<bar>nearest64 (F / real n) - sum_list xs / real n\<bar> \<le>
      \<bar>nearest64 (F / real n) - F / real n\<bar> + \<bar>F / real n - sum_list xs / real n\<bar>"
    by linarith
  also have "\<dots> \<le> u * ((1 + u) ^ n * S) / real n + ((1 + u) ^ n - 1) * S / real n + h"
    using e2 e3 by linarith
  also have "u * ((1 + u) ^ n * S) / real n + ((1 + u) ^ n - 1) * S / real n =
      ((1 + u) ^ (n + 1) - 1) * S / real n"
    by (simp add: algebra_simps add_divide_distrib [symmetric] diff_divide_distrib [symmetric])
  finally show ?thesis
    by (simp add: exact_mean_def mean_tolerance_def F_def u_def h_def n_def S_def)
qed


text \<open>
  A bound \<open>b\<close> with \<open>n * b < 2^1023\<close> lies below a power of two \<open>B\<close> with
  \<open>n * B < 2^1024\<close>.
\<close>

lemma power_of_two_above:
  assumes "0 < n" and "n < 2 ^ 53" and "real n * b < 2 powi 1023"
  obtains E where "- 1074 \<le> E" and "b \<le> 2 powi E" and "real n * 2 powi E < 2 powi 1024"
proof -
  define c where "c = max b (2 powi (- 1074))"
  have c: "2 powi (- 1074) \<le> c" "b \<le> c" "0 < c"
    using two_powi_pos [of "- 1074"] by (simp_all add: c_def max_def)
  have n53: "real n < 2 powi 53"
    using assms(2) by (metis of_nat_less_iff of_nat_numeral of_nat_power power_int_of_nat
        of_nat_numeral)
  have nc: "real n * c < 2 powi 1023"
  proof (cases "b \<le> 2 powi (- 1074)")
    case True
    then have ceq: "c = 2 powi (- 1074)" by (simp add: c_def max_def)
    have "real n * 2 powi (- 1074) < 2 powi 53 * 2 powi (- 1074)"
      using n53 by (simp only: mult_less_cancel_right_pos two_powi_pos)
    also have "\<dots> = 2 powi (- 1021)"
      using two_powi_add [of 53 "- 1074"] by simp
    also have "\<dots> \<le> 2 powi 1023"
      by (intro two_powi_mono) simp
    finally show ?thesis by (simp only: ceq)
  next
    case False
    then have "c = b" by (simp add: c_def max_def)
    with assms(3) show ?thesis by simp
  qed
  define E where "E = exponent64 c + 53"
  have cn: "c \<noteq> 0" "\<bar>c\<bar> = c" using c(3) by simp_all
  have e1: "E - 1 = exponent64 c + 52"
    by (simp add: E_def)
  have lo: "2 powi (E - 1) \<le> c"
    unfolding e1 using exponent64_bounds [OF cn(1)] cn(2) by linarith
  have hi: "c < 2 powi E"
    unfolding E_def using exponent64_bounds [OF cn(1)] cn(2) by linarith
  have "(2::real) powi (- 1074) < 2 powi E"
    using c(1) hi by linarith
  then have "- 1074 < E" by (rule two_powi_less_imp)
  then have 1: "- 1074 \<le> E" by simp
  have 2: "b \<le> 2 powi E"
    using c(2) hi by linarith
  have "(2::real) powi E = 2 * 2 powi (E - 1)"
    using two_powi_add [of "E - 1" 1] by simp
  then have "real n * 2 powi E = 2 * (real n * 2 powi (E - 1))"
    by simp
  also have "\<dots> \<le> 2 * (real n * c)"
    using lo by (simp add: mult_left_mono)
  also have "\<dots> < 2 * 2 powi 1023"
    using nc by linarith
  also have "\<dots> = 2 powi 1024"
    using two_powi_add [of 1023 1] by simp
  finally have 3: "real n * 2 powi E < 2 powi 1024" .
  from 1 2 3 show thesis by (rule that)
qed

text \<open>
  The mean that the loop and the division compute on \<open>number\<close>s, for finite values whose
  sums do not overflow: it is the finite number that the roundings on real numbers give.
\<close>

lemma computed_mean_finite:
  assumes ne: "xs \<noteq> []" and len: "length xs < 2 ^ 53"
    and xs: "\<forall>x \<in> set xs. \<bar>x\<bar> \<le> b"
    and b: "real (length xs) * b < 2 powi 1023"
  shows "num_div (foldl num_add (Num 0) (map Num xs)) (Num (real (length xs))) =
           Num (nearest64 (foldl (\<lambda>a x. nearest64 (a + x)) 0 xs / real (length xs))) \<and>
         is_double (nearest64 (foldl (\<lambda>a x. nearest64 (a + x)) 0 xs / real (length xs)))"
proof -
  define n where "n = length xs"
  define F where "F = foldl (\<lambda>a x. nearest64 (a + x)) 0 xs"
  have n: "0 < n" "0 < real n" "real n \<noteq> 0"
    using ne by (simp_all add: n_def)
  obtain E where E: "- 1074 \<le> E" "b \<le> 2 powi E" "real n * 2 powi E < 2 powi 1024"
    using power_of_two_above [of n b] n(1) len b by (auto simp add: n_def)
  have bound: "\<forall>x \<in> set xs. \<bar>x\<bar> \<le> 2 powi E"
    using xs E(2) by fastforce
  have "\<bar>F\<bar> \<le> real (0 + length xs) * 2 powi E"
    unfolding F_def using bound _ _ E(1) by (rule foldl_nearest64_bound) (use len in simp_all)
  then have Fb: "\<bar>F\<bar> \<le> real n * 2 powi E"
    by (simp add: n_def)
  have sum: "foldl num_add (Num 0) (map Num xs) = Num F"
    unfolding F_def using bound _ _ E(1)
    by (rule foldl_num_add_Num [where k = 0]) (use len E(3) in \<open>simp_all add: n_def\<close>)
  have "\<bar>F\<bar> / real n \<le> real n * 2 powi E / real n"
    using Fb n(2) by (intro divide_right_mono) simp_all
  then have "\<bar>F / real n\<bar> \<le> 2 powi E"
    using n(2) by (simp add: abs_divide)
  moreover have "nearest64 (2 powi E) = 2 powi E"
    using grid_scaled [of 1 E] E(1) by simp
  ultimately have q: "\<bar>nearest64 (F / real n)\<bar> \<le> 2 powi E"
    by (rule nearest64_abs_le_grid)
  have "(2::real) powi E \<le> real n * 2 powi E"
    using n(1) by simp
  with q E(3) have fin: "\<bar>nearest64 (F / real n)\<bar> < 2 powi 1024"
    by linarith
  then have "round64 (F / real n) = Num (nearest64 (F / real n))"
    by (rule round64_Num)
  then have "num_div (Num F) (Num (real n)) = Num (nearest64 (F / real n))"
    using n(3) by (simp only: num_div.simps if_False)
  with sum is_double_nearest64 [OF fin] show ?thesis
    by (simp only: F_def n_def)
qed

subsection \<open>Helper facts on the comparisons\<close>


lemma is_finite_Num: "is_finite n \<Longrightarrow> n = Num (the_real n) \<and> is_double (the_real n)"
  by (cases n) simp_all

lemma is_finite_imp_is_number: "is_finite n \<Longrightarrow> is_number n"
  by (cases n) simp_all


subsection \<open>Helper facts on the methods\<close>

lemma foldl_add_pairs:
  "foldl (\<lambda>r coord. (num_add (fst r) (fst coord), num_add (snd r) (snd coord))) (a, b)
     (ps :: XY list) =
     (foldl num_add a (map fst ps), foldl num_add b (map snd ps))"
  by (induction ps arbitrary: a b) simp_all

lemma calcBunchAvarage_precision_rule:
  "calcBunchAvarage this =
     (precision_rule (bunchPrecisionCount this) (bunchBuffer this), this\<lparr>bunchBuffer := []\<rparr>)"
  by (simp add: calcBunchAvarage_def precision_rule_def arithmetic_mean_def foldl_add_pairs)

text \<open>The four paths through \<open>bunch\<close>, one equation each.\<close>

lemma bunch_outside:
  "\<not> inProjectionArea (normalizeXY this coord) \<Longrightarrow>
   bunch this coord dataPlace =
     (if bunchBuffer this \<noteq> [] then calcBunchAvarage (this\<lparr>prevCoord := coord\<rparr>)
      else (None, this\<lparr>prevCoord := coord\<rparr>))"
  by (simp add: bunch_def Let_def)

lemma bunch_inside_First:
  "inProjectionArea (normalizeXY this coord) \<Longrightarrow>
   bunch this coord First = (None, this\<lparr>bunchBuffer := [coord], prevCoord := coord\<rparr>)"
  by (simp add: bunch_def)

lemma bunch_inside_Middle:
  "inProjectionArea (normalizeXY this coord) \<Longrightarrow>
   bunch this coord Middle =
     (if bunchBuffer this \<noteq> [] \<and>
         (num_lt (bunchEps this) (num_abs (num_sub (fst (prevCoord this)) (fst coord))) \<or>
          num_lt (bunchEps this) (num_abs (num_sub (snd (prevCoord this)) (snd coord))))
      then (precision_rule (bunchPrecisionCount this) (bunchBuffer this),
            this\<lparr>bunchBuffer := [coord], prevCoord := coord\<rparr>)
      else (None, this\<lparr>bunchBuffer := bunchBuffer this @ [coord], prevCoord := coord\<rparr>))"
  by (simp add: bunch_def Let_def calcBunchAvarage_precision_rule)

lemma bunch_inside_Last:
  "inProjectionArea (normalizeXY this coord) \<Longrightarrow>
   bunch this coord Last =
     (if bunchBuffer this \<noteq> []
      then (precision_rule (bunchPrecisionCount this) (bunchBuffer this),
            this\<lparr>bunchBuffer := []\<rparr>)
      else (None, this))"
  by (simp add: bunch_def Let_def calcBunchAvarage_precision_rule)

text \<open>\<open>bunch\<close> writes no field that \<open>convert\<close> or \<open>normalize\<close> reads.\<close>

lemma bunch_config:
  "options (snd (bunch this coord dataPlace)) = options this \<and>
   sensorFov (snd (bunch this coord dataPlace)) = sensorFov this \<and>
   sensorAxisRotationMatrix (snd (bunch this coord dataPlace)) = sensorAxisRotationMatrix this \<and>
   bunchPrecisionCount (snd (bunch this coord dataPlace)) = bunchPrecisionCount this"
  by (simp add: bunch_def calcBunchAvarage_def Let_def split_beta)

lemma bunchAll_config:
  "options (snd (bunchAll this calls)) = options this \<and>
   sensorFov (snd (bunchAll this calls)) = sensorFov this \<and>
   sensorAxisRotationMatrix (snd (bunchAll this calls)) = sensorAxisRotationMatrix this"
proof (induction calls arbitrary: this)
  case Nil
  show ?case by simp
next
  case (Cons call calls)
  obtain coord dataPlace where call: "call = (coord, dataPlace)"
    by (cases call)
  show ?case
    using Cons.IH [of "snd (bunch this coord dataPlace)"] bunch_config [of this coord dataPlace]
    by (simp add: call split_beta Let_def)
qed




text \<open>
  The mean of finite points whose sums do not overflow: on each axis it is the finite
  number that the roundings on real numbers give.
\<close>

lemma mean_axis_finite:
  assumes ne: "ns \<noteq> []" and len: "length ns < 2 ^ 53"
    and fin: "\<forall>n \<in> set ns. is_finite n \<and> \<bar>the_real n\<bar> \<le> b"
    and b: "real (length ns) * b < 2 powi 1023"
  shows "num_div (foldl num_add (Num 0) ns) (Num (real (length ns))) =
           Num (nearest64 (foldl (\<lambda>a x. nearest64 (a + x)) 0 (map the_real ns) /
                           real (length ns))) \<and>
         is_double (nearest64 (foldl (\<lambda>a x. nearest64 (a + x)) 0 (map the_real ns) /
                               real (length ns))) \<and>
         (\<forall>x \<in> set (map the_real ns). nearest64 x = x \<and> \<bar>x\<bar> \<le> b)"
proof -
  define xs where "xs = map the_real ns"
  have id: "Num (the_real n) = n" if "n \<in> set ns" for n
    by (cases n) (use fin that in auto)
  have "map Num xs = ns"
    unfolding xs_def map_map comp_def by (rule map_idI) (rule id)
  then have ns: "ns = map Num xs" by simp
  have l: "length xs = length ns" by (simp add: xs_def)
  have g: "\<forall>x \<in> set xs. nearest64 x = x \<and> \<bar>x\<bar> \<le> b"
    using fin is_finite_Num by (auto simp add: xs_def is_double_def)
  then have bound: "\<forall>x \<in> set xs. \<bar>x\<bar> \<le> b" by simp
  have "xs \<noteq> []" "length xs < 2 ^ 53" "real (length xs) * b < 2 powi 1023"
    using ne len b by (simp_all add: xs_def)
  from computed_mean_finite [OF this(1,2) bound this(3)] g show ?thesis
    unfolding l by (subst ns, subst (2) ns) (simp add: xs_def [symmetric])
qed

text \<open>The fields of the example objects.\<close>

lemma round64_literals:
  "round64 (1 / 20) = Num (3602879701896397 / 72057594037927936)"
  "round64 (1 / 5) = Num (3602879701896397 / 18014398509481984)"
  "round64 (1 / 10) = Num (3602879701896397 / 36028797018963968)"
  by (simp_all add: round64_eval)

lemma example_converter_simps:
  "options example_converter = example_options"
  "bunchBuffer example_converter = []"
  "prevCoord example_converter = (MAX_SAFE_INTEGER, MAX_SAFE_INTEGER)"
  "bunchEps example_converter = Num (3602879701896397 / 72057594037927936)"
  "bunchPrecisionCount example_converter = Num 3"
  "projectionAreaSize example_options = (Num 2, Num 2)"
  by (simp_all add: example_converter_def new_CoordinateConverter_def example_options_def
      round64_literals)

lemma loaded_converter_simps:
  "options loaded_converter = example_options"
  "bunchBuffer loaded_converter = [(Num 0.5, Num 0.5), (Num 0.53125, Num 0.5), (Num 0.5625, Num 0.5)]"
  "prevCoord loaded_converter = (Num 0.5625, Num 0.5)"
  "bunchEps loaded_converter = Num (3602879701896397 / 72057594037927936)"
  "bunchPrecisionCount loaded_converter = Num 3"
  by (simp_all add: loaded_converter_def example_converter_simps)


lemma narrow_converter_simps:
  "options narrow_converter = narrow_options"
  "bunchBuffer narrow_converter = []"
  "bunchEps narrow_converter = Num (3602879701896397 / 72057594037927936)"
  "bunchPrecisionCount narrow_converter = Num 3"
  "projectionAreaSize narrow_options = (Num (3602879701896397 / 18014398509481984), Num 2)"
  by (simp_all add: narrow_converter_def narrow_options_def new_CoordinateConverter_def
      example_options_def round64_literals)

lemma edge_converter_simps:
  "options edge_converter = narrow_options"
  "bunchBuffer edge_converter =
     [(Num (3602879701896397 / 36028797018963968), Num 0),
      (Num (3602879701896397 / 36028797018963968), Num 0),
      (Num (3602879701896397 / 36028797018963968), Num 0)]"
  "prevCoord edge_converter = (Num (3602879701896397 / 36028797018963968), Num 0)"
  "bunchEps edge_converter = Num (3602879701896397 / 72057594037927936)"
  "bunchPrecisionCount edge_converter = Num 3"
  by (simp_all add: edge_converter_def narrow_converter_simps round64_literals)

lemma smallest_converter_simps:
  "options smallest_converter = smallest_options"
  "bunchBuffer smallest_converter = []"
  "projectionAreaSize smallest_options = (Num MIN_VALUE, Num 2)"
  by (simp_all add: smallest_converter_def smallest_options_def new_CoordinateConverter_def
      example_options_def)

lemma subnormal_converter_simps:
  "options subnormal_converter = subnormal_options"
  "bunchBuffer subnormal_converter = []"
  "projectionAreaSize subnormal_options = (Num (3 * MIN_VALUE), Num 2)"
  by (simp_all add: subnormal_converter_def subnormal_options_def new_CoordinateConverter_def
      example_options_def)

lemma huge_converter_simps:
  "options huge_converter = huge_options"
  "bunchBuffer huge_converter = []"
  "bunchEps huge_converter = Num (3602879701896397 / 72057594037927936)"
  "bunchPrecisionCount huge_converter = Num 3"
  "projectionAreaSize huge_options = (Num MAX_VALUE, Num 2)"
  by (simp_all add: huge_converter_def huge_options_def new_CoordinateConverter_def
      example_options_def round64_literals)

lemmas in_area_simps = inProjectionArea_def normalizeXY_def



text \<open>The smallest and the largest numbers, and the roundings next to them.\<close>

lemma MIN_VALUE_pos: "0 < MIN_VALUE"
  by (simp add: MIN_VALUE_def)

lemma MIN_VALUE_double: "is_double MIN_VALUE" "is_double (2 * MIN_VALUE)" "is_double (3 * MIN_VALUE)"
proof -
  have b: "(2::real) powi (- 1074) \<le> 2 powi 1000"
    by (intro two_powi_mono) simp
  have c: "(2::real) powi 1000 * 8 \<le> 2 powi 1024"
    using two_powi_add [of 1000 3] two_powi_mono [of 1003 1024] by simp
  have p: "0 < (2::real) powi (- 1074)" by (rule two_powi_pos)
  show "is_double MIN_VALUE"
    using grid_scaled [of 1 "- 1074"] b c p unfolding is_double_def MIN_VALUE_def by simp
  show "is_double (2 * MIN_VALUE)"
    using grid_scaled [of 2 "- 1074"] b c p unfolding is_double_def MIN_VALUE_def by simp
  show "is_double (3 * MIN_VALUE)"
    using grid_scaled [of 3 "- 1074"] b c p unfolding is_double_def MIN_VALUE_def by simp
qed

lemma MIN_VALUE_half: "round64 (MIN_VALUE / 2) = Num 0"
proof -
  have x: "MIN_VALUE / 2 = 2 powi (- 1075)"
    unfolding MIN_VALUE_def using two_powi_add [of "- 1075" 1] by simp
  have "exponent64 (2 powi (- 1075)) = - 1127"
    by (rule exponent64_eqI) simp_all
  then have u: "ulp_exponent (2 powi (- 1075)) = - 1074"
    by (simp add: ulp_exponent_def)
  have q: "2 powi (- 1075) / 2 powi (- 1074) = (1 / 2 :: real)"
    using two_powi_diff [of "- 1075" "- 1074"] by simp
  have "nearest64 (2 powi (- 1075)) = 0"
    unfolding nearest64_def u q by (simp add: round_half_even_def)
  then show ?thesis
    unfolding x round64_def Let_def by simp
qed

lemma three_MIN_VALUE_half: "round64 (3 * MIN_VALUE / 2) = Num (2 * MIN_VALUE)"
proof -
  define x :: real where "x = 3 * MIN_VALUE / 2"
  have m: "0 < MIN_VALUE" by (rule MIN_VALUE_pos)
  have x: "x = 3 * 2 powi (- 1075)"
    unfolding x_def MIN_VALUE_def using two_powi_add [of "- 1075" 1] by simp
  have "exponent64 x = - 1126"
  proof (rule exponent64_eqI)
    have "(2::real) powi (- 1126 + 52) = 2 * 2 powi (- 1075)"
      using two_powi_add [of "- 1075" 1] by simp
    then show "2 powi (- 1126 + 52) \<le> \<bar>x\<bar>"
      unfolding x using two_powi_pos [of "- 1075"] by simp
    have "(2::real) powi (- 1126 + 53) = 4 * 2 powi (- 1075)"
      using two_powi_add [of "- 1075" 2] by simp
    then show "\<bar>x\<bar> < 2 powi (- 1126 + 53)"
      unfolding x using two_powi_pos [of "- 1075"] by simp
  qed
  then have u: "ulp_exponent x = - 1074"
    by (simp add: ulp_exponent_def)
  have q: "x / 2 powi (- 1074) = 3 / 2"
    unfolding x_def MIN_VALUE_def by simp
  have nz: "x \<noteq> 0" unfolding x_def using m by simp
  have "nearest64 x = 2 * 2 powi (- 1074)"
    unfolding nearest64_def u q using nz by (simp add: round_half_even_def)
  then have n: "nearest64 x = 2 * MIN_VALUE"
    by (simp only: MIN_VALUE_def)
  have "\<bar>2 * MIN_VALUE\<bar> < 2 powi 1024"
    using MIN_VALUE_double(2) by (simp add: is_double_def)
  then show ?thesis
    unfolding x_def [symmetric] using round64_Num [of x] n by simp
qed

lemma MAX_VALUE_pos: "0 < MAX_VALUE"
proof -
  have "(2::real) powi 971 < 2 powi 1024"
    using two_powi_less_imp [of 1024 971] by (auto simp add: not_le)
  then show ?thesis by (simp add: MAX_VALUE_def)
qed

lemma MAX_VALUE_double: "is_double MAX_VALUE" "is_double (MAX_VALUE / 2)"
proof -
  have a: "MAX_VALUE = of_int (2 ^ 53 - 1) * 2 powi 971"
    unfolding MAX_VALUE_def using two_powi_add [of 53 971] by (simp add: algebra_simps)
  have b: "MAX_VALUE / 2 = of_int (2 ^ 53 - 1) * 2 powi 970"
    unfolding a using two_powi_add [of 970 1] by simp
  have p: "0 < (2::real) powi 971" "0 < (2::real) powi 1024" "(2::real) powi 971 < 2 powi 1024"
    using two_powi_less_imp [of 1024 971] two_powi_mono [of 971 1024] by (auto simp add: not_le)
  have lt: "\<bar>MAX_VALUE\<bar> < 2 powi 1024" "\<bar>MAX_VALUE / 2\<bar> < 2 powi 1024"
    unfolding MAX_VALUE_def using p by (simp_all add: abs_if)
  have "nearest64 MAX_VALUE = MAX_VALUE"
    unfolding a by (rule grid_scaled) simp_all
  with lt show "is_double MAX_VALUE" by (simp add: is_double_def)
  have "nearest64 (MAX_VALUE / 2) = MAX_VALUE / 2"
    unfolding b by (rule grid_scaled) simp_all
  with lt show "is_double (MAX_VALUE / 2)" by (simp add: is_double_def)
qed

lemma round64_overflow:
  assumes "2 powi 1024 \<le> y"
  shows "round64 y = PosInf"
proof -
  have "nearest64 (2 powi 1024) = 2 powi 1024"
    using grid_scaled [of 1 1024] by simp
  with assms have "2 powi 1024 \<le> nearest64 y"
    by (rule nearest64_ge_grid)
  then show ?thesis
    unfolding round64_def Let_def by (simp only: if_True)
qed

lemma MAX_VALUE_overflow: "round64 (3 * MAX_VALUE / 2) = PosInf"
proof (rule round64_overflow)
  have "(2::real) powi 1024 = 4 * 2 powi 1022" "(2::real) powi 971 \<le> 2 powi 1022"
    using two_powi_add [of 1022 2] two_powi_mono [of 971 1022] by simp_all
  then show "2 powi 1024 \<le> 3 * MAX_VALUE / 2"
    unfolding MAX_VALUE_def by simp
qed

lemma round64_zero_one: "round64 0 = Num 0" "round64 1 = Num 1"
proof -
  have "(1::real) < 2 powi 1024"
    using two_powi_mono [of 1 1024] by simp
  then have "is_double 1" by (simp add: is_double_def)
  then show "round64 1 = Num 1" by (rule round64_double)
  show "round64 0 = Num 0" by (rule round64_double) simp
qed


subsection \<open>The first sample of a sweep\<close>

text \<open>
  Claim C6. A call of \<open>bunch\<close> with an in-area point and the tag \<open>First\<close> returns
  \<open>null\<close> whatever the buffer held before, and afterwards the buffer holds exactly the
  argument and the last-processed point is the argument.
\<close>

theorem bunch_First_restarts:
  assumes "inProjectionArea (normalizeXY this coord)"
  shows "fst (bunch this coord First) = None \<and>
         bunchBuffer (snd (bunch this coord First)) = [coord] \<and>
         prevCoord (snd (bunch this coord First)) = coord"
  using assms by (simp add: bunch_inside_First)

theorem bunch_First_restarts_witness:
  "inProjectionArea (normalizeXY loaded_converter (Num 0, Num 0)) \<and>
   fst (bunch loaded_converter (Num 0, Num 0) First) = None \<and>
   bunchBuffer (snd (bunch loaded_converter (Num 0, Num 0) First)) = [(Num 0, Num 0)] \<and>
   prevCoord (snd (bunch loaded_converter (Num 0, Num 0) First)) = (Num 0, Num 0)"
proof -
  have a: "inProjectionArea (normalizeXY loaded_converter (Num 0, Num 0))"
    by (simp add: in_area_simps loaded_converter_simps example_converter_simps num_eval)
  from bunch_First_restarts [OF a] a show ?thesis by simp
qed

subsection \<open>The last-processed point\<close>

text \<open>
  Claim C2 says that after every call of \<open>bunch\<close> the last-processed point is the
  argument. The branch for an in-area point tagged \<open>Last\<close> does not assign
  \<open>prevCoord\<close>: after the sweep \<open>[0.5, 0.5]\<close> as \<open>First\<close>, \<open>[0.625, 0.625]\<close> as
  \<open>Last\<close> the last-processed point is still \<open>[0.5, 0.5]\<close>.
\<close>

theorem bunch_Last_keeps_prevCoord:
  "inProjectionArea (normalizeXY example_converter (Num 0.5, Num 0.5)) \<and>
   inProjectionArea (normalizeXY example_converter (Num 0.625, Num 0.625)) \<and>
   prevCoord (snd (bunchAll example_converter
                     [((Num 0.5, Num 0.5), First), ((Num 0.625, Num 0.625), Last)])) =
     (Num 0.5, Num 0.5) \<and>
   (Num 0.5, Num 0.5) \<noteq> ((Num 0.625, Num 0.625) :: XY)"
  by (simp add: bunch_def calcBunchAvarage_def Let_def in_area_simps example_converter_simps
      num_eval)

text \<open>
  Claim C2, amended. After a call of \<open>bunch\<close> the last-processed point is the argument
  when the tag is \<open>First\<close> or \<open>Middle\<close> or the point is out of the area; for an in-area
  point tagged \<open>Last\<close> it is what it was before the call.
\<close>

theorem bunch_prevCoord_after:
  "prevCoord (snd (bunch this coord dataPlace)) =
     (if dataPlace = Last \<and> inProjectionArea (normalizeXY this coord) then prevCoord this
      else coord)"
proof (cases "inProjectionArea (normalizeXY this coord)")
  case False
  then show ?thesis
    by (simp add: bunch_outside calcBunchAvarage_precision_rule)
next
  case True
  then show ?thesis
    by (cases dataPlace) (simp_all add: bunch_inside_First bunch_inside_Middle bunch_inside_Last)
qed

theorem bunch_prevCoord_after_witness:
  "prevCoord (snd (bunch loaded_converter (Num 0.59375, Num 0.5) Last)) =
     (Num 0.5625, Num 0.5) \<and>
   prevCoord (snd (bunch loaded_converter (Num 0.59375, Num 0.5) Middle)) =
     (Num 0.59375, Num 0.5) \<and>
   prevCoord (snd (bunch loaded_converter (Num 3, Num 0.5) Last)) = (Num 3, Num 0.5)"
  using bunch_prevCoord_after [of loaded_converter "(Num 0.59375, Num 0.5)" Last]
    bunch_prevCoord_after [of loaded_converter "(Num 0.59375, Num 0.5)" Middle]
    bunch_prevCoord_after [of loaded_converter "(Num 3, Num 0.5)" Last]
  by (simp add: in_area_simps loaded_converter_simps example_converter_simps num_eval)

subsection \<open>A point out of the projection area\<close>

text \<open>
  Claim C4. When the point fails \<open>inProjectionArea(normalize(point))\<close>, whatever its tag:
  the buffer is empty after the call, so the point is not in it; the result is the flush of
  the buffer held before the call (precision rule) when that buffer was non-empty, and
  \<open>null\<close> when it was empty.
\<close>

theorem bunch_out_of_area_flushes:
  assumes "\<not> inProjectionArea (normalizeXY this coord)"
  shows "bunchBuffer (snd (bunch this coord dataPlace)) = [] \<and>
         fst (bunch this coord dataPlace) =
           (if bunchBuffer this \<noteq> []
            then precision_rule (bunchPrecisionCount this) (bunchBuffer this) else None)"
  using assms by (simp add: bunch_outside calcBunchAvarage_precision_rule)

theorem bunch_out_of_area_flushes_witness:
  "\<not> inProjectionArea (normalizeXY loaded_converter (Num 3, Num 0.5)) \<and>
   bunchBuffer (snd (bunch loaded_converter (Num 3, Num 0.5) Middle)) = [] \<and>
   fst (bunch loaded_converter (Num 3, Num 0.5) Middle) = Some (Num 0.53125, Num 0.5) \<and>
   \<not> inProjectionArea (normalizeXY example_converter (Num 3, Num 0.5)) \<and>
   bunchBuffer (snd (bunch example_converter (Num 3, Num 0.5) First)) = [] \<and>
   fst (bunch example_converter (Num 3, Num 0.5) First) = None"
proof -
  have a: "\<not> inProjectionArea (normalizeXY loaded_converter (Num 3, Num 0.5))"
    by (simp add: in_area_simps loaded_converter_simps example_converter_simps num_eval)
  have b: "\<not> inProjectionArea (normalizeXY example_converter (Num 3, Num 0.5))"
    by (simp add: in_area_simps example_converter_simps num_eval)
  from bunch_out_of_area_flushes [OF a, of Middle] bunch_out_of_area_flushes [OF b, of First] a b
  show ?thesis
    by (simp add: precision_rule_def arithmetic_mean_def loaded_converter_simps
        example_converter_simps num_eval)
qed

subsection \<open>The flush\<close>

text \<open>
  Claim C5 says that a flush of at least \<open>bunchPrecisionCount\<close> points returns the point
  whose coordinates are the arithmetic means of the buffered coordinates. The flush
  computes in binary64, and both the rounding and the overflow of the sum show in its
  result. After \<open>[0.1, 0]\<close> as \<open>First\<close>, \<open>Middle\<close>, \<open>Middle\<close> on the area 0.2 m wide
  the buffer holds three points with the same x, \<open>7205759403792794 / 2^56\<close>, and the
  flush returns the x \<open>7205759403792795 / 2^56\<close>, which is not their mean. On the area
  \<open>Number.MAX_VALUE\<close> wide, the sweep \<open>[Number.MAX_VALUE / 2, 0]\<close> as \<open>First\<close>,
  \<open>Middle\<close>, \<open>Middle\<close>, \<open>Last\<close> buffers three in-area points and returns
  \<open>[Infinity, 0]\<close>.
\<close>

theorem flush_mean_is_rounded:
  "snd (bunchAll narrow_converter
          [((round64 0.1, Num 0), First), ((round64 0.1, Num 0), Middle),
           ((round64 0.1, Num 0), Middle)]) = edge_converter \<and>
   round64 0.1 = Num (7205759403792794 / 2 ^ 56) \<and>
   num_le (bunchPrecisionCount edge_converter) (Num (real (length (bunchBuffer edge_converter)))) \<and>
   fst (calcBunchAvarage edge_converter) = Some (Num (7205759403792795 / 2 ^ 56), Num 0) \<and>
   exact_mean (map (the_real \<circ> fst) (bunchBuffer edge_converter)) = 7205759403792794 / 2 ^ 56 \<and>
   (7205759403792795 / 2 ^ 56 :: real) \<noteq> 7205759403792794 / 2 ^ 56 \<and>
   is_double (MAX_VALUE / 2) \<and>
   inProjectionArea (normalizeXY huge_converter (Num (MAX_VALUE / 2), Num 0)) \<and>
   fst (bunchAll huge_converter
          [((Num (MAX_VALUE / 2), Num 0), First), ((Num (MAX_VALUE / 2), Num 0), Middle),
           ((Num (MAX_VALUE / 2), Num 0), Middle), ((Num (MAX_VALUE / 2), Num 0), Last)]) =
     [None, None, None, Some (PosInf, Num 0)]"
proof -
  have a: "snd (bunchAll narrow_converter
          [((round64 0.1, Num 0), First), ((round64 0.1, Num 0), Middle),
           ((round64 0.1, Num 0), Middle)]) = edge_converter"
    by (simp add: bunch_def calcBunchAvarage_def Let_def in_area_simps narrow_converter_simps
        edge_converter_def round64_literals num_eval)
  have b: "round64 0.1 = Num (7205759403792794 / 2 ^ 56)"
    by (simp add: round64_literals)
  have c: "num_le (bunchPrecisionCount edge_converter)
             (Num (real (length (bunchBuffer edge_converter))))"
    by (simp add: edge_converter_simps)
  have d: "fst (calcBunchAvarage edge_converter) = Some (Num (7205759403792795 / 2 ^ 56), Num 0)"
    by (simp add: calcBunchAvarage_def Let_def edge_converter_simps num_eval)
  have e: "exact_mean (map (the_real \<circ> fst) (bunchBuffer edge_converter)) =
      7205759403792794 / 2 ^ 56"
    by (simp add: exact_mean_def edge_converter_simps)
  have f: "(7205759403792795 / 2 ^ 56 :: real) \<noteq> 7205759403792794 / 2 ^ 56"
    by simp
  have g: "inProjectionArea (normalizeXY huge_converter (Num (MAX_VALUE / 2), Num 0))"
    using MAX_VALUE_pos
    by (simp add: in_area_simps huge_converter_simps round64_double MAX_VALUE_double
        round64_zero_one)
  have h: "fst (bunchAll huge_converter
          [((Num (MAX_VALUE / 2), Num 0), First), ((Num (MAX_VALUE / 2), Num 0), Middle),
           ((Num (MAX_VALUE / 2), Num 0), Middle), ((Num (MAX_VALUE / 2), Num 0), Last)]) =
     [None, None, None, Some (PosInf, Num 0)]"
    using MAX_VALUE_pos
    by (simp add: bunch_def calcBunchAvarage_def Let_def in_area_simps huge_converter_simps
        round64_double MAX_VALUE_double num_sub_def round64_zero_one MAX_VALUE_overflow
        signed_inf_def)
  from a b c d e f g h MAX_VALUE_double(2) show ?thesis
    by (simp only: simp_thms)
qed

text \<open>
  Claim C5, amended. A flush (\<open>calcBunchAvarage\<close>, which \<open>bunch\<close> calls on a non-empty
  buffer only) of \<open>n\<close> points returns \<open>null\<close> when \<open>n\<close> is below \<open>bunchPrecisionCount\<close>
  and otherwise the point that the operators of the language compute: on each axis the
  sum from left to right, starting at 0, divided by \<open>n\<close>. The buffer is empty after it in
  both cases. When the buffer holds fewer than \<open>2^32\<close> points, all finite, of magnitude
  \<open>b\<close> at most with \<open>n * b < 2^1023\<close>, no sum overflows: each coordinate of that point
  is finite and within \<open>mean_tolerance\<close> of the mean in exact arithmetic, a relative error
  of \<open>(1 + 2^-53)^(n + 1) - 1\<close> and \<open>2^-1075\<close> for the underflow of the quotient.
\<close>

theorem calcBunchAvarage_mean:
  assumes "bunchBuffer this \<noteq> []"
  shows "fst (calcBunchAvarage this) =
           (if num_le (bunchPrecisionCount this) (Num (real (length (bunchBuffer this))))
            then Some (arithmetic_mean (bunchBuffer this)) else None) \<and>
         bunchBuffer (snd (calcBunchAvarage this)) = [] \<and>
         (length (bunchBuffer this) < 2 ^ 32 \<and>
          (\<forall>p \<in> set (bunchBuffer this).
             is_finite (fst p) \<and> is_finite (snd p) \<and>
             \<bar>the_real (fst p)\<bar> \<le> b \<and> \<bar>the_real (snd p)\<bar> \<le> b) \<and>
          real (length (bunchBuffer this)) * b < 2 powi 1023 \<longrightarrow>
          is_finite (fst (arithmetic_mean (bunchBuffer this))) \<and>
          is_finite (snd (arithmetic_mean (bunchBuffer this))) \<and>
          \<bar>the_real (fst (arithmetic_mean (bunchBuffer this))) -
             exact_mean (map (the_real \<circ> fst) (bunchBuffer this))\<bar>
            \<le> mean_tolerance (map (the_real \<circ> fst) (bunchBuffer this)) \<and>
          \<bar>the_real (snd (arithmetic_mean (bunchBuffer this))) -
             exact_mean (map (the_real \<circ> snd) (bunchBuffer this))\<bar>
            \<le> mean_tolerance (map (the_real \<circ> snd) (bunchBuffer this)))"
proof (intro conjI impI)
  show "fst (calcBunchAvarage this) =
      (if num_le (bunchPrecisionCount this) (Num (real (length (bunchBuffer this))))
       then Some (arithmetic_mean (bunchBuffer this)) else None)"
    by (simp add: calcBunchAvarage_precision_rule precision_rule_def)
  show "bunchBuffer (snd (calcBunchAvarage this)) = []"
    by (simp add: calcBunchAvarage_precision_rule)
next
  let ?ps = "bunchBuffer this"
  assume "length ?ps < 2 ^ 32 \<and>
    (\<forall>p \<in> set ?ps. is_finite (fst p) \<and> is_finite (snd p) \<and>
       \<bar>the_real (fst p)\<bar> \<le> b \<and> \<bar>the_real (snd p)\<bar> \<le> b) \<and>
    real (length ?ps) * b < 2 powi 1023"
  then have len: "length ?ps < 2 ^ 32"
    and fin: "\<forall>p \<in> set ?ps. is_finite (fst p) \<and> is_finite (snd p) \<and>
       \<bar>the_real (fst p)\<bar> \<le> b \<and> \<bar>the_real (snd p)\<bar> \<le> b"
    and nb: "real (length ?ps) * b < 2 powi 1023"
    by blast+
  have axis: "is_finite (num_div (foldl num_add (Num 0) ns) (Num (real (length ns)))) \<and>
      \<bar>the_real (num_div (foldl num_add (Num 0) ns) (Num (real (length ns)))) -
         exact_mean (map the_real ns)\<bar> \<le> mean_tolerance (map the_real ns)"
    if ns: "length ns = length ?ps" "\<forall>n \<in> set ns. is_finite n \<and> \<bar>the_real n\<bar> \<le> b"
    for ns
  proof -
    have ne: "ns \<noteq> []" and l: "length ns < 2 ^ 53"
      using assms len ns(1) by auto
    have nb': "real (length ns) * b < 2 powi 1023"
      using nb by (simp add: ns(1))
    define m where
      "m = nearest64 (foldl (\<lambda>a x. nearest64 (a + x)) 0 (map the_real ns) / real (length ns))"
    have mean: "num_div (foldl num_add (Num 0) ns) (Num (real (length ns))) = Num m"
      and dm: "is_double m"
      and grid: "\<forall>x \<in> set (map the_real ns). nearest64 x = x \<and> \<bar>x\<bar> \<le> b"
      unfolding m_def using mean_axis_finite [OF ne l ns(2) nb'] by blast+
    have "map the_real ns \<noteq> []"
      using ne by simp
    moreover have "\<forall>x \<in> set (map the_real ns). nearest64 x = x"
      using grid by blast
    ultimately have "\<bar>m - exact_mean (map the_real ns)\<bar> \<le> mean_tolerance (map the_real ns)"
      unfolding m_def using computed_mean_error [of "map the_real ns"] by simp
    with dm show ?thesis
      by (simp add: mean)
  qed
  have x: "\<forall>n \<in> set (map fst ?ps). is_finite n \<and> \<bar>the_real n\<bar> \<le> b"
    and y: "\<forall>n \<in> set (map snd ?ps). is_finite n \<and> \<bar>the_real n\<bar> \<le> b"
    using fin by auto
  from axis [OF _ x] axis [OF _ y]
  show "is_finite (fst (arithmetic_mean ?ps))"
    and "is_finite (snd (arithmetic_mean ?ps))"
    and "\<bar>the_real (fst (arithmetic_mean ?ps)) - exact_mean (map (the_real \<circ> fst) ?ps)\<bar>
      \<le> mean_tolerance (map (the_real \<circ> fst) ?ps)"
    and "\<bar>the_real (snd (arithmetic_mean ?ps)) - exact_mean (map (the_real \<circ> snd) ?ps)\<bar>
      \<le> mean_tolerance (map (the_real \<circ> snd) ?ps)"
    by (simp_all add: arithmetic_mean_def)
qed

theorem calcBunchAvarage_mean_witness:
  "bunchBuffer loaded_converter \<noteq> [] \<and>
   fst (calcBunchAvarage loaded_converter) = Some (Num 0.53125, Num 0.5) \<and>
   bunchBuffer (snd (calcBunchAvarage loaded_converter)) = [] \<and>
   length (bunchBuffer loaded_converter) < 2 ^ 32 \<and>
   is_finite (Num 0.5) \<and> is_finite (Num 0.53125) \<and> is_finite (Num 0.5625) \<and>
   real (length (bunchBuffer loaded_converter)) * 1 < 2 powi 1023 \<and>
   exact_mean (map (the_real \<circ> fst) (bunchBuffer loaded_converter)) = 0.53125 \<and>
   \<bar>the_real (fst (arithmetic_mean (bunchBuffer loaded_converter))) - 0.53125\<bar>
     \<le> mean_tolerance (map (the_real \<circ> fst) (bunchBuffer loaded_converter)) \<and>
   bunchBuffer (loaded_converter\<lparr>bunchPrecisionCount := Num 4\<rparr>) \<noteq> [] \<and>
   fst (calcBunchAvarage (loaded_converter\<lparr>bunchPrecisionCount := Num 4\<rparr>)) = None \<and>
   bunchBuffer (snd (calcBunchAvarage (loaded_converter\<lparr>bunchPrecisionCount := Num 4\<rparr>))) = []"
proof -
  have a: "bunchBuffer loaded_converter \<noteq> []"
    by (simp add: loaded_converter_simps)
  have b: "bunchBuffer (loaded_converter\<lparr>bunchPrecisionCount := Num 4\<rparr>) \<noteq> []"
    by (simp add: loaded_converter_simps)
  have d: "is_finite (Num 0.5)" "is_finite (Num 0.53125)" "is_finite (Num 0.5625)"
    by (simp_all add: is_double_def nearest64_eval)
  have l: "length (bunchBuffer loaded_converter) < 2 ^ 32"
    by (simp add: loaded_converter_simps)
  have n: "real (length (bunchBuffer loaded_converter)) * 1 < 2 powi 1023"
    using two_powi_mono [of 2 1023] by (simp add: loaded_converter_simps)
  have f: "\<forall>p \<in> set (bunchBuffer loaded_converter).
      is_finite (fst p) \<and> is_finite (snd p) \<and>
      \<bar>the_real (fst p)\<bar> \<le> 1 \<and> \<bar>the_real (snd p)\<bar> \<le> 1"
    using d by (simp add: loaded_converter_simps)
  have m: "arithmetic_mean (bunchBuffer loaded_converter) = (Num 0.53125, Num 0.5)"
    by (simp add: loaded_converter_simps arithmetic_mean_def num_eval)
  have e: "exact_mean (map (the_real \<circ> fst) (bunchBuffer loaded_converter)) = 0.53125"
    by (simp add: loaded_converter_simps exact_mean_def)
  have p: "num_le (bunchPrecisionCount loaded_converter)
      (Num (real (length (bunchBuffer loaded_converter))))"
    "\<not> num_le (Num 4) (Num (real (length (bunchBuffer loaded_converter))))"
    by (simp_all add: loaded_converter_simps)
  from calcBunchAvarage_mean [OF a, of 1] l f n
  have "fst (calcBunchAvarage loaded_converter) = Some (Num 0.53125, Num 0.5)"
    and "bunchBuffer (snd (calcBunchAvarage loaded_converter)) = []"
    and "\<bar>the_real (fst (arithmetic_mean (bunchBuffer loaded_converter))) -
         exact_mean (map (the_real \<circ> fst) (bunchBuffer loaded_converter))\<bar>
        \<le> mean_tolerance (map (the_real \<circ> fst) (bunchBuffer loaded_converter))"
    using p(1) m by simp_all
  moreover from calcBunchAvarage_mean [OF b, of 1]
  have "fst (calcBunchAvarage (loaded_converter\<lparr>bunchPrecisionCount := Num 4\<rparr>)) = None"
    and "bunchBuffer (snd (calcBunchAvarage (loaded_converter\<lparr>bunchPrecisionCount := Num 4\<rparr>))) = []"
    using p(2) by simp_all
  ultimately show ?thesis
    using a b d l n e by (simp only: simp_thms)
qed

subsection \<open>A sample in the middle of a sweep\<close>

text \<open>
  Claim C3. For an in-area point tagged \<open>Middle\<close>: when the buffer is non-empty and the
  point is further than \<open>bunchEps\<close> from the last-processed point on some axis, the result
  is the flush of the buffer held before the call (precision rule), which the point is not
  part of, and afterwards the buffer holds exactly the point; otherwise the point is
  appended to the buffer and the result is \<open>null\<close>.
\<close>

theorem bunch_Middle_flush_or_append:
  assumes "inProjectionArea (normalizeXY this coord)"
  shows "(bunchBuffer this \<noteq> [] \<and>
          (num_lt (bunchEps this) (num_abs (num_sub (fst (prevCoord this)) (fst coord))) \<or>
           num_lt (bunchEps this) (num_abs (num_sub (snd (prevCoord this)) (snd coord)))) \<longrightarrow>
            fst (bunch this coord Middle) =
              precision_rule (bunchPrecisionCount this) (bunchBuffer this) \<and>
            bunchBuffer (snd (bunch this coord Middle)) = [coord]) \<and>
         (\<not> (bunchBuffer this \<noteq> [] \<and>
             (num_lt (bunchEps this) (num_abs (num_sub (fst (prevCoord this)) (fst coord))) \<or>
              num_lt (bunchEps this) (num_abs (num_sub (snd (prevCoord this)) (snd coord))))) \<longrightarrow>
            fst (bunch this coord Middle) = None \<and>
            bunchBuffer (snd (bunch this coord Middle)) = bunchBuffer this @ [coord])"
  using assms by (simp add: bunch_inside_Middle)

theorem bunch_Middle_flush_or_append_witness:
  "inProjectionArea (normalizeXY loaded_converter (Num 0.5625, Num 0.25)) \<and>
   bunchBuffer loaded_converter \<noteq> [] \<and>
   num_lt (bunchEps loaded_converter)
     (num_abs (num_sub (snd (prevCoord loaded_converter)) (snd ((Num 0.5625, Num 0.25) :: XY)))) \<and>
   fst (bunch loaded_converter (Num 0.5625, Num 0.25) Middle) = Some (Num 0.53125, Num 0.5) \<and>
   bunchBuffer (snd (bunch loaded_converter (Num 0.5625, Num 0.25) Middle)) =
     [(Num 0.5625, Num 0.25)] \<and>
   inProjectionArea (normalizeXY loaded_converter (Num 0.59375, Num 0.5)) \<and>
   \<not> num_lt (bunchEps loaded_converter)
     (num_abs (num_sub (fst (prevCoord loaded_converter)) (fst ((Num 0.59375, Num 0.5) :: XY)))) \<and>
   \<not> num_lt (bunchEps loaded_converter)
     (num_abs (num_sub (snd (prevCoord loaded_converter)) (snd ((Num 0.59375, Num 0.5) :: XY)))) \<and>
   fst (bunch loaded_converter (Num 0.59375, Num 0.5) Middle) = None \<and>
   bunchBuffer (snd (bunch loaded_converter (Num 0.59375, Num 0.5) Middle)) =
     [(Num 0.5, Num 0.5), (Num 0.53125, Num 0.5), (Num 0.5625, Num 0.5), (Num 0.59375, Num 0.5)]"
proof -
  have a: "inProjectionArea (normalizeXY loaded_converter (Num 0.5625, Num 0.25))"
    by (simp add: in_area_simps loaded_converter_simps example_converter_simps num_eval)
  have b: "inProjectionArea (normalizeXY loaded_converter (Num 0.59375, Num 0.5))"
    by (simp add: in_area_simps loaded_converter_simps example_converter_simps num_eval)
  from bunch_Middle_flush_or_append [OF a] bunch_Middle_flush_or_append [OF b] a b
  show ?thesis
    by (simp add: precision_rule_def arithmetic_mean_def loaded_converter_simps num_eval)
qed

subsection \<open>A sweep of five near-identical points\<close>




subsection \<open>The initial state\<close>

text \<open>
  Claim C7 says that the last-processed point of a freshly constructed converter is an
  explicit empty value and not a number. The field \<open>prevCoord\<close> has the type \<open>XY\<close>, which
  has no empty value, and its initializer is the pair of \<open>Number.MAX_SAFE_INTEGER\<close>.
\<close>

theorem initial_prevCoord_is_numeric:
  "prevCoord (new_CoordinateConverter example_options) =
     (Num 9007199254740991, Num 9007199254740991)"
  by (simp add: new_CoordinateConverter_def MAX_SAFE_INTEGER_def)

text \<open>
  Claim C7, amended. In the initial state of a freshly constructed converter the
  last-processed point is the numeric pair \<open>[2^53 - 1, 2^53 - 1]\<close>
  (\<open>Number.MAX_SAFE_INTEGER\<close> twice), and the buffer is empty.
\<close>

theorem initial_cluster_state:
  "prevCoord (new_CoordinateConverter opts) = (MAX_SAFE_INTEGER, MAX_SAFE_INTEGER) \<and>
   MAX_SAFE_INTEGER = Num (2 ^ 53 - 1) \<and>
   bunchBuffer (new_CoordinateConverter opts) = []"
  by (simp add: new_CoordinateConverter_def MAX_SAFE_INTEGER_def)

subsection \<open>The projection area\<close>

text \<open>
  Claim C8 says that for every positive width and height of the projection area
  \<open>inProjectionArea(normalize(p))\<close> holds exactly when \<open>|p.x| \<le> width / 2\<close> and
  \<open>|p.y| \<le> height / 2\<close>. \<open>normalize\<close> divides by the half extent as binary64 computes
  it, and the half of a subnormal extent is rounded. For the width \<open>Number.MIN_VALUE\<close>
  the half is 0, \<open>normalize([0, 0])\<close> is \<open>[NaN, 0]\<close> and the test fails for the centre of
  the area. For the width \<open>3 * Number.MIN_VALUE\<close> the half is rounded up to
  \<open>2 * Number.MIN_VALUE\<close>, and the point \<open>[2 * Number.MIN_VALUE, 0]\<close>, further than half
  the width from the centre, passes the test.
\<close>

theorem inProjectionArea_subnormal_extent:
  "projectionAreaSize (options smallest_converter) = (Num MIN_VALUE, Num 2) \<and>
   is_double MIN_VALUE \<and> 0 < MIN_VALUE \<and>
   num_div (Num MIN_VALUE) (Num 2) = Num 0 \<and>
   normalizeXY smallest_converter (Num 0, Num 0) = (NaN, Num 0) \<and>
   \<not> inProjectionArea (normalizeXY smallest_converter (Num 0, Num 0)) \<and>
   num_le (num_abs (Num 0)) (Num (MIN_VALUE / 2)) \<and>
   num_le (num_abs (Num 0)) (Num (2 / 2)) \<and>
   projectionAreaSize (options subnormal_converter) = (Num (3 * MIN_VALUE), Num 2) \<and>
   is_double (3 * MIN_VALUE) \<and> is_double (2 * MIN_VALUE) \<and>
   num_div (Num (3 * MIN_VALUE)) (Num 2) = Num (2 * MIN_VALUE) \<and>
   normalizeXY subnormal_converter (Num (2 * MIN_VALUE), Num 0) = (Num 1, Num 0) \<and>
   inProjectionArea (normalizeXY subnormal_converter (Num (2 * MIN_VALUE), Num 0)) \<and>
   \<not> num_le (num_abs (Num (2 * MIN_VALUE))) (Num (3 * MIN_VALUE / 2))"
proof -
  have m: "0 < MIN_VALUE" by (rule MIN_VALUE_pos)
  have a: "projectionAreaSize (options smallest_converter) = (Num MIN_VALUE, Num 2)"
    "projectionAreaSize (options subnormal_converter) = (Num (3 * MIN_VALUE), Num 2)"
    by (simp_all add: smallest_converter_simps subnormal_converter_simps)
  have b: "num_div (Num MIN_VALUE) (Num 2) = Num 0"
    "num_div (Num (3 * MIN_VALUE)) (Num 2) = Num (2 * MIN_VALUE)"
    by (simp_all add: MIN_VALUE_half three_MIN_VALUE_half)
  have c: "normalizeXY smallest_converter (Num 0, Num 0) = (NaN, Num 0)"
    unfolding normalizeXY_def a fst_conv snd_conv b by (simp add: round64_zero_one)
  have d: "normalizeXY subnormal_converter (Num (2 * MIN_VALUE), Num 0) = (Num 1, Num 0)"
    unfolding normalizeXY_def a fst_conv snd_conv b using m by (simp add: round64_zero_one)
  have e: "\<not> inProjectionArea (normalizeXY smallest_converter (Num 0, Num 0))"
    "inProjectionArea (normalizeXY subnormal_converter (Num (2 * MIN_VALUE), Num 0))"
    unfolding c d by (simp_all add: inProjectionArea_def)
  have f: "num_le (num_abs (Num 0)) (Num (MIN_VALUE / 2))"
    "num_le (num_abs (Num 0)) (Num (2 / 2))"
    "\<not> num_le (num_abs (Num (2 * MIN_VALUE))) (Num (3 * MIN_VALUE / 2))"
    using m by simp_all
  from a b c d e f m MIN_VALUE_double show ?thesis
    by (simp only: simp_thms)
qed

text \<open>
  Claim C8, amended. For a projection area whose width and height are finite \<open>number\<close>s
  of \<open>2^-1021\<close> at least, and every point \<open>p\<close> of \<open>number\<close>s, infinite ones and \<open>NaN\<close>
  included, \<open>inProjectionArea(normalize(p))\<close> holds exactly when \<open>|p.x| \<le> width / 2\<close>
  and \<open>|p.y| \<le> height / 2\<close>, both bounds included. Halving such an extent is exact, and
  the rounding of the quotient does not cross 1 or -1.
\<close>

theorem inProjectionArea_normalize_iff:
  assumes "projectionAreaSize (options this) = (Num w, Num h)"
    and "is_double w" and "2 powi (- 1021) \<le> w"
    and "is_double h" and "2 powi (- 1021) \<le> h"
    and "is_number (fst p)" and "is_number (snd p)"
  shows "inProjectionArea (normalizeXY this p) \<longleftrightarrow>
           num_le (num_abs (fst p)) (Num (w / 2)) \<and> num_le (num_abs (snd p)) (Num (h / 2))"
  using normalized_in_unit_interval [OF assms(6) assms(2,3)]
    normalized_in_unit_interval [OF assms(7) assms(4,5)]
  by (auto simp add: in_area_simps assms(1))

theorem inProjectionArea_normalize_iff_witness:
  "projectionAreaSize (options example_converter) = (Num 2, Num 2) \<and>
   is_double 2 \<and> 2 powi (- 1021) \<le> (2 :: real) \<and>
   is_number (Num 1) \<and> is_number (Num (- 1)) \<and> is_number (Num 1.25) \<and> is_number (Num 0) \<and>
   is_number PosInf \<and> is_number NaN \<and>
   inProjectionArea (normalizeXY example_converter (Num 1, Num (- 1))) \<and>
   \<not> inProjectionArea (normalizeXY example_converter (Num 1.25, Num 0)) \<and>
   \<not> inProjectionArea (normalizeXY example_converter (PosInf, Num 0)) \<and>
   \<not> inProjectionArea (normalizeXY example_converter (Num 0, NaN))"
proof -
  have a: "projectionAreaSize (options example_converter) = (Num 2, Num 2)"
    by (simp add: example_converter_simps)
  have b: "is_double 2" "2 powi (- 1021) \<le> (2 :: real)"
    using two_powi_mono [of "- 1021" 1] two_powi_mono [of 2 1024]
    by (simp_all add: is_double_def)
  have c: "is_number (Num 1)" "is_number (Num (- 1))" "is_number (Num 1.25)" "is_number (Num 0)"
    using two_powi_mono [of 2 1024] by (simp_all add: is_double_def nearest64_eval)
  have p: "is_number (fst (Num 1, Num (- 1)))" "is_number (snd (Num 1, Num (- 1)))"
    "is_number (fst (Num 1.25, Num 0))" "is_number (snd (Num 1.25, Num 0))"
    "is_number (fst (PosInf, Num 0))" "is_number (snd (PosInf, Num 0))"
    "is_number (fst (Num 0, NaN))" "is_number (snd (Num 0, NaN))"
    using c by simp_all
  from inProjectionArea_normalize_iff [OF a b(1,2) b(1,2) p(1,2)]
    inProjectionArea_normalize_iff [OF a b(1,2) b(1,2) p(3,4)]
    inProjectionArea_normalize_iff [OF a b(1,2) b(1,2) p(5,6)]
    inProjectionArea_normalize_iff [OF a b(1,2) b(1,2) p(7,8)]
    a b c
  show ?thesis
    by simp
qed

subsection \<open>Which methods depend on the cluster state\<close>

text \<open>
  Claim C9. \<open>convert\<close> and \<open>normalize\<close> are functions of the configuration and their
  arguments: they return the same value on two objects that differ in the buffer and the
  last-processed point only, hence also before and after any sequence of \<open>bunch\<close> calls.
  They assign no field: in the model they return a value and no object. \<open>bunch\<close> does
  depend on the cluster state: on two objects of one configuration, one with three points
  buffered and one with none, the same call returns different results.
\<close>

theorem convert_normalize_ignore_cluster_state:
  "convert (this\<lparr>bunchBuffer := buffer, prevCoord := prev\<rparr>) distance dataIndex datasLength =
     convert this distance dataIndex datasLength \<and>
   normalizeXY (this\<lparr>bunchBuffer := buffer, prevCoord := prev\<rparr>) coord = normalizeXY this coord \<and>
   convert (snd (bunchAll this calls)) distance dataIndex datasLength =
     convert this distance dataIndex datasLength \<and>
   normalizeXY (snd (bunchAll this calls)) coord = normalizeXY this coord \<and>
   loaded_converter = example_converter\<lparr>bunchBuffer := bunchBuffer loaded_converter,
                                        prevCoord := prevCoord loaded_converter\<rparr> \<and>
   fst (bunch loaded_converter (Num 0, Num 0) Last) \<noteq>
     fst (bunch example_converter (Num 0, Num 0) Last)"
proof -
  have "fst (bunch loaded_converter (Num 0, Num 0) Last) = Some (Num 0.53125, Num 0.5)"
    by (simp add: bunch_def calcBunchAvarage_def in_area_simps loaded_converter_simps
        example_converter_simps num_eval)
  moreover have "fst (bunch example_converter (Num 0, Num 0) Last) = None"
    by (simp add: bunch_def in_area_simps example_converter_simps num_eval)
  moreover have "loaded_converter = example_converter\<lparr>bunchBuffer := bunchBuffer loaded_converter,
                                        prevCoord := prevCoord loaded_converter\<rparr>"
    by (simp add: loaded_converter_def)
  ultimately show ?thesis
    using bunchAll_config [of this calls]
    by (simp add: convert_def normalizeXY_def)
qed

subsection \<open>Where the results of \<open>bunch\<close> lie\<close>




end
